theory Spec2Isabelle
  imports Complex_Main "HOL-Library.Product_Order"
begin

section \<open>Errors\<close>

text \<open>
  The C++ exceptions the modelled code can raise: \<^verbatim>\<open>std::out_of_range\<close> from
  \<^verbatim>\<open>unordered_map::at\<close> and \<^verbatim>\<open>vector::at\<close>, and the \<^verbatim>\<open>std::runtime_error\<close> of
  \<^verbatim>\<open>mc_rtc::log::error_and_throw\<close>. A function that can throw returns
  \<open>error + 'a\<close>, with \<open>Inl\<close> for the exception.

  \<open>NonFiniteDouble\<close> is no exception: it marks a quotient of doubles with the divisor
  0, which is NaN or infinite in the code. A real number cannot hold that value, so the
  model stops there with this mark instead of computing on with a number the code does
  not have.
\<close>

datatype error = OutOfRange | RuntimeError | NonFiniteDouble

definition bind_err :: "error + 'a \<Rightarrow> ('a \<Rightarrow> error + 'b) \<Rightarrow> error + 'b" where
  "bind_err r f = (case r of Inl e \<Rightarrow> Inl e | Inr v \<Rightarrow> f v)"

section \<open>Linear algebra on doubles, idealised as reals\<close>

text \<open>
  \<^verbatim>\<open>Eigen::Vector3d\<close> and \<^verbatim>\<open>Eigen::Matrix3d\<close> with their componentwise operations. The
  \<^verbatim>\<open>double\<close> entries are modelled as real numbers: rounding is outside the model.
  Vector addition and subtraction are the componentwise ones of the product type. The
  quotient of a vector by a scalar, \<open>div3\<close>, has a result only for a divisor other than
  0.
\<close>

type_synonym vec3 = "real \<times> real \<times> real"

text \<open>A matrix is the triple of its rows.\<close>

type_synonym mat3 = "vec3 \<times> vec3 \<times> vec3"

definition scale3 :: "vec3 \<Rightarrow> real \<Rightarrow> vec3" where
  "scale3 v a = (case v of (x, y, z) \<Rightarrow> (x * a, y * a, z * a))"

definition div3 :: "vec3 \<Rightarrow> real \<Rightarrow> error + vec3" where
  "div3 v a =
     (if a = 0 then Inl NonFiniteDouble
      else (case v of (x, y, z) \<Rightarrow> Inr (x / a, y / a, z / a)))"

definition dot3 :: "vec3 \<Rightarrow> vec3 \<Rightarrow> real" where
  "dot3 v w = (case (v, w) of ((a, b, c), (x, y, z)) \<Rightarrow> a * x + b * y + c * z)"

definition norm3 :: "vec3 \<Rightarrow> real" where
  "norm3 v = sqrt (dot3 v v)"

definition coeff2 :: "vec3 \<Rightarrow> real" where
  "coeff2 v = (case v of (x, y, z) \<Rightarrow> z)"

definition set_coeff2 :: "vec3 \<Rightarrow> real \<Rightarrow> vec3" where
  "set_coeff2 v a = (case v of (x, y, z) \<Rightarrow> (x, y, a))"

definition transpose3 :: "mat3 \<Rightarrow> mat3" where
  "transpose3 m = (case m of ((a, b, c), (d, e, f), (g, h, i)) \<Rightarrow>
     ((a, d, g), (b, e, h), (c, f, i)))"

definition mat_vec :: "mat3 \<Rightarrow> vec3 \<Rightarrow> vec3" where
  "mat_vec m v = (case m of (r1, r2, r3) \<Rightarrow> (dot3 r1 v, dot3 r2 v, dot3 r3 v))"

definition mat_mul :: "mat3 \<Rightarrow> mat3 \<Rightarrow> mat3" where
  "mat_mul m n = (case (m, transpose3 n) of ((r1, r2, r3), (c1, c2, c3)) \<Rightarrow>
     ((dot3 r1 c1, dot3 r1 c2, dot3 r1 c3),
      (dot3 r2 c1, dot3 r2 c2, dot3 r2 c3),
      (dot3 r3 c1, dot3 r3 c2, dot3 r3 c3)))"

definition identity3 :: mat3 where
  "identity3 = ((1, 0, 0), (0, 1, 0), (0, 0, 1))"

text \<open>\<^verbatim>\<open>sva::PTransformd\<close>: a rotation and a translation.\<close>

record PTransformd =
  rotation :: mat3
  translation :: vec3

definition PTransformd_Identity :: PTransformd where
  "PTransformd_Identity = \<lparr>rotation = identity3, translation = 0\<rparr>"

text \<open>
  The pose part of \<^verbatim>\<open>stateObservation::kine::Kinematics\<close>: a position and an
  orientation, the latter as its rotation matrix (\<^verbatim>\<open>toMatrix3()\<close>).
\<close>

record Kinematics =
  position :: vec3
  orientation :: mat3

section \<open>Contacts and the contacts manager (ContactsManager.h)\<close>

text \<open>
  \<^verbatim>\<open>LoContactWithSensor\<close> (leggedOdometryTools.h): the fields of the base contact that the
  code reads (\<^verbatim>\<open>id_\<close>, \<^verbatim>\<open>name_\<close>, \<^verbatim>\<open>surface\<close>, \<^verbatim>\<open>isSet_\<close>, \<^verbatim>\<open>wasAlreadySet_\<close>) and the
  four the legged odometry adds. Member names are written without the trailing
  underscore of the source; \<^verbatim>\<open>id_\<close> and \<^verbatim>\<open>name_\<close> carry the names of their accessors
  \<^verbatim>\<open>getID()\<close> and \<^verbatim>\<open>getName()\<close>. \<^verbatim>\<open>id_\<close> is a C++ \<^verbatim>\<open>int\<close>: an integer of the range
  \<open>- 2^31 .. 2^31 - 1\<close>.
\<close>

record LoContactWithSensor =
  getID :: int
  getName :: string
  surface :: string
  isSet :: bool
  wasAlreadySet :: bool
  worldRefKine :: Kinematics
  useForOrientation :: bool
  forceNorm :: real
  currentWorldOrientation :: mat3

text \<open>
  The constructor \<^verbatim>\<open>ContactT(idx_, forceSensorName, surface)\<close>: the id, the name and the
  surface are the arguments; \<^verbatim>\<open>useForOrientation_ = false\<close> and \<^verbatim>\<open>forceNorm_ = 0.0\<close> are
  the member initialisers of leggedOdometryTools.h. The kinematics are
  default-constructed in C++; the model puts a fixed value in their place.
\<close>

definition ContactT :: "int \<Rightarrow> string \<Rightarrow> string \<Rightarrow> LoContactWithSensor" where
  "ContactT i n s =
     \<lparr>getID = i, getName = n, surface = s, isSet = False, wasAlreadySet = False,
      worldRefKine = \<lparr>position = 0, orientation = identity3\<rparr>,
      useForOrientation = False, forceNorm = 0, currentWorldOrientation = identity3\<rparr>"

datatype ContactsDetection = Solver | Surfaces | Sensors | Undefined

text \<open>
  \<^verbatim>\<open>ContactsManager\<close>, with the members the modelled functions read or write:
  \<^verbatim>\<open>listContacts_\<close> is the \<^verbatim>\<open>unordered_map\<close> from names to contacts, \<^verbatim>\<open>insertOrder_\<close> the
  vector of names, \<^verbatim>\<open>idx_\<close> the id counter. A \<^verbatim>\<open>ContactsSet\<close> (\<^verbatim>\<open>std::set<int>\<close>) is
  modelled by the list of its elements in iteration order.
\<close>

record ContactsManager =
  listContacts :: "string \<rightharpoonup> LoContactWithSensor"
  insertOrder :: "string list"
  idx :: int
  contactsDetectionMethod :: ContactsDetection
  contactsFound :: "int list"
  oldContacts :: "int list"
  removedContacts :: "int list"

text \<open>
  The increment of a C++ \<^verbatim>\<open>int\<close> (32 bits, two's complement): \<^verbatim>\<open>INT_MAX + 1\<close> is
  \<^verbatim>\<open>INT_MIN\<close>. (The language leaves the overflow of \<^verbatim>\<open>idx_++\<close> undefined; the compiled
  code wraps.)
\<close>

definition INT_MAX :: int where
  "INT_MAX = 2147483647"

definition int_wrap :: "int \<Rightarrow> int" where
  "int_wrap x = (x + 2147483648) mod 4294967296 - 2147483648"

text \<open>
  \<^verbatim>\<open>addContactToManager\<close>, lines 49-56. \<^verbatim>\<open>unordered_map::insert\<close> leaves the map as it is
  when the key is present and returns the element already there. The result is the
  contact referred to and the manager after the call.
\<close>

definition addContactToManager ::
  "'a ContactsManager_scheme \<Rightarrow> string \<Rightarrow> string \<Rightarrow>
     LoContactWithSensor \<times> 'a ContactsManager_scheme" where
  "addContactToManager m forceSensorName surf =
     (case listContacts m forceSensorName of
        Some c \<Rightarrow> (c, m)
      | None \<Rightarrow>
          (let c = ContactT (idx m) forceSensorName surf in
           (c, m\<lparr>listContacts := (listContacts m)(forceSensorName \<mapsto> c),
                 insertOrder := insertOrder m @ [forceSensorName],
                 idx := int_wrap (idx m + 1)\<rparr>)))"

text \<open>The one-argument overload, lines 61-64.\<close>

definition addContactToManager1 ::
  "'a ContactsManager_scheme \<Rightarrow> string \<Rightarrow> LoContactWithSensor \<times> 'a ContactsManager_scheme" where
  "addContactToManager1 m forceSensorName = addContactToManager m forceSensorName ''''"

text \<open>A run of insertions, each keeping the manager the call leaves.\<close>

fun addContacts ::
  "'a ContactsManager_scheme \<Rightarrow> (string \<times> string) list \<Rightarrow> 'a ContactsManager_scheme" where
  "addContacts m [] = m"
| "addContacts m ((n, s) # ns) = addContacts (snd (addContactToManager m n s)) ns"

text \<open>
  A manager as constructed: no contact, \<^verbatim>\<open>idx_ = 0\<close>,
  \<^verbatim>\<open>contactsDetectionMethod_ = Undefined\<close>.
\<close>

definition emptyManager :: ContactsManager where
  "emptyManager =
     \<lparr>listContacts = Map.empty, insertOrder = [], idx = 0,
      contactsDetectionMethod = Undefined, contactsFound = [], oldContacts = [],
      removedContacts = []\<rparr>"

text \<open>
  The accessors, lines 104-129. \<^verbatim>\<open>vector::at\<close> and \<^verbatim>\<open>unordered_map::at\<close> throw
  \<^verbatim>\<open>std::out_of_range\<close>; a negative \<^verbatim>\<open>int\<close> index converts to a \<^verbatim>\<open>size_t\<close> beyond every
  vector's size.
\<close>

definition getNameFromIdx :: "'a ContactsManager_scheme \<Rightarrow> int \<Rightarrow> error + string" where
  "getNameFromIdx m i =
     (if 0 \<le> i \<and> i < int (length (insertOrder m)) then Inr (insertOrder m ! nat i)
      else Inl OutOfRange)"

definition contact_name :: "'a ContactsManager_scheme \<Rightarrow> string \<Rightarrow> error + LoContactWithSensor" where
  "contact_name m n = (case listContacts m n of None \<Rightarrow> Inl OutOfRange | Some c \<Rightarrow> Inr c)"

definition contact_idx :: "'a ContactsManager_scheme \<Rightarrow> int \<Rightarrow> error + LoContactWithSensor" where
  "contact_idx m i = bind_err (getNameFromIdx m i) (contact_name m)"

definition getIdxFromName :: "'a ContactsManager_scheme \<Rightarrow> string \<Rightarrow> error + int" where
  "getIdxFromName m n = bind_err (contact_name m n) (\<lambda>c. Inr (getID c))"

text \<open>
  \<^verbatim>\<open>strToContactsDetection\<close> (lines 39-40) and \<^verbatim>\<open>stringToContactsDetection\<close>
  (lines 143-152): a string that is no key of the table throws.
\<close>

definition strToContactsDetection :: "(string \<times> ContactsDetection) list" where
  "strToContactsDetection =
     [(''Solver'', Solver), (''Surfaces'', Surfaces), (''Sensors'', Sensors),
      (''Undefined'', Undefined)]"

definition stringToContactsDetection :: "string \<Rightarrow> error + ContactsDetection" where
  "stringToContactsDetection str =
     (case map_of strToContactsDetection str of
        None \<Rightarrow> Inl RuntimeError
      | Some d \<Rightarrow> Inr d)"

text \<open>
  The detection modes the configuration recognises, as the error message of
  \<^verbatim>\<open>stringToContactsDetection\<close> lists them: "Please pick among : [Surfaces, Sensors,
  Solver]".
\<close>

definition recognizedModes :: "string list" where
  "recognizedModes = [''Surfaces'', ''Sensors'', ''Solver'']"

section \<open>The registry invariant\<close>

text \<open>
  What every manager built from \<open>emptyManager\<close> by insertions satisfies: the counter is
  the number of names, the names are distinct and are the keys of the map, and the
  contact under the \<open>i\<close>-th name carries the id \<open>i\<close> and that name.
\<close>

definition registry_inv :: "'a ContactsManager_scheme \<Rightarrow> bool" where
  "registry_inv m \<longleftrightarrow>
     idx m = int (length (insertOrder m)) \<and>
     distinct (insertOrder m) \<and>
     dom (listContacts m) = set (insertOrder m) \<and>
     (\<forall>i < length (insertOrder m).
        \<exists>c. listContacts m (insertOrder m ! i) = Some c \<and> getID c = int i \<and>
            getName c = insertOrder m ! i)"

section \<open>The legged odometry (leggedOdometryTools.h, leggedOdometryTools.cpp)\<close>

subsection \<open>The orientation candidate set\<close>

text \<open>
  \<^verbatim>\<open>LeggedOdometryContactsManager\<close> extends the manager with \<^verbatim>\<open>oriOdometryContacts_\<close>, a
  \<^verbatim>\<open>std::set<std::reference_wrapper<LoContactWithSensor>, sortByForce>\<close>. A reference to an
  element of \<^verbatim>\<open>listContacts_\<close> is modelled by the key of that element, and the set by
  the list of its elements in iteration order.
\<close>

record LeggedOdometryContactsManager = ContactsManager +
  oriOdometryContacts :: "string list"

text \<open>The comparator, leggedOdometryTools.h lines 86-92.\<close>

definition sortByForce :: "LoContactWithSensor \<Rightarrow> LoContactWithSensor \<Rightarrow> bool" where
  "sortByForce contact1 contact2 \<longleftrightarrow> forceNorm contact1 < forceNorm contact2"

text \<open>The comparator on two references: both are read through the map.\<close>

definition sortByForce_ref :: "'a ContactsManager_scheme \<Rightarrow> string \<Rightarrow> string \<Rightarrow> bool" where
  "sortByForce_ref m k1 k2 =
     (case (listContacts m k1, listContacts m k2) of
        (Some c1, Some c2) \<Rightarrow> sortByForce c1 c2
      | _ \<Rightarrow> False)"

text \<open>
  \<^verbatim>\<open>std::set::insert\<close> under a comparator \<open>lt\<close>: the new element goes before the first
  element it is less than; when an element equivalent to it (neither less than the
  other) is met first, the set is left as it is.
\<close>

fun set_insert :: "('a \<Rightarrow> 'a \<Rightarrow> bool) \<Rightarrow> 'a \<Rightarrow> 'a list \<Rightarrow> 'a list" where
  "set_insert lt x [] = [x]"
| "set_insert lt x (y # ys) =
     (if lt x y then x # y # ys
      else if lt y x then y # set_insert lt x ys
      else y # ys)"

text \<open>\<^verbatim>\<open>name.find("Hand") == std::string::npos\<close> is \<open>\<not> occurs ''Hand'' name\<close>.\<close>

fun occurs :: "string \<Rightarrow> string \<Rightarrow> bool" where
  "occurs pat [] \<longleftrightarrow> pat = []"
| "occurs pat (c # cs) \<longleftrightarrow> take (length pat) (c # cs) = pat \<or> occurs pat cs"

text \<open>A write through a reference: the element under the key is replaced.\<close>

definition modifyContact ::
  "'a ContactsManager_scheme \<Rightarrow> string \<Rightarrow> (LoContactWithSensor \<Rightarrow> LoContactWithSensor) \<Rightarrow>
     'a ContactsManager_scheme" where
  "modifyContact m k f =
     (case listContacts m k of
        None \<Rightarrow> m
      | Some c \<Rightarrow> m\<lparr>listContacts := (listContacts m)(k \<mapsto> f c)\<rparr>)"

text \<open>
  \<^verbatim>\<open>selectForOrientationOdometry\<close>, lines 342-360. The \<^verbatim>\<open>for\<close> loop over
  \<^verbatim>\<open>contactsFound()\<close>: the contact of each found index is looked up (the legged odometry
  calls the accessor \<^verbatim>\<open>contactWithSensor\<close>; it is \<^verbatim>\<open>contact\<close> of ContactsManager.h), and one
  whose name has no \<^verbatim>\<open>"Hand"\<close> gets its flag set and is inserted.
\<close>

fun selectLoop ::
  "int list \<Rightarrow> LeggedOdometryContactsManager \<Rightarrow> error + LeggedOdometryContactsManager" where
  "selectLoop [] m = Inr m"
| "selectLoop (i # rest) m =
     bind_err (getNameFromIdx m i) (\<lambda>k.
     bind_err (contact_name m k) (\<lambda>contact.
       if \<not> occurs ''Hand'' (getName contact) then
         (let m1 = modifyContact m k (\<lambda>c. c\<lparr>useForOrientation := True\<rparr>) in
          selectLoop rest
            (m1\<lparr>oriOdometryContacts :=
                  set_insert (sortByForce_ref m1) k (oriOdometryContacts m1)\<rparr>))
       else selectLoop rest m))"

text \<open>
  The \<^verbatim>\<open>while\<close> loop, lines 355-359: while the set holds more than two elements, the
  flag of its first element is cleared and the element erased.
\<close>

function evictLoop :: "LeggedOdometryContactsManager \<Rightarrow> LeggedOdometryContactsManager" where
  "evictLoop m =
     (if length (oriOdometryContacts m) > 2 then
        evictLoop
          ((modifyContact m (hd (oriOdometryContacts m)) (\<lambda>c. c\<lparr>useForOrientation := False\<rparr>))
             \<lparr>oriOdometryContacts := tl (oriOdometryContacts m)\<rparr>)
      else m)"
  by pat_completeness auto
termination
  by (relation "measure (\<lambda>m. length (oriOdometryContacts m))")
    (auto simp: modifyContact_def split: option.splits)

declare evictLoop.simps [simp del]

definition selectForOrientationOdometry_cm ::
  "LeggedOdometryContactsManager \<Rightarrow> error + LeggedOdometryContactsManager" where
  "selectForOrientationOdometry_cm m =
     bind_err (selectLoop (contactsFound m) (m\<lparr>oriOdometryContacts := []\<rparr>))
       (\<lambda>m1. Inr (evictLoop m1))"

subsection \<open>The robot model and the libraries, as the odometry sees them\<close>

text \<open>
  The odometry robot (\<^verbatim>\<open>mc_rbdyn::Robot\<close>): the pose of its floating base, which
  \<^verbatim>\<open>posW(pose)\<close> stores and \<^verbatim>\<open>posW()\<close> reads, and the world poses of its bodies
  (\<^verbatim>\<open>mbc().bodyPosW\<close>, here by body name), which \<^verbatim>\<open>forwardKinematics()\<close> recomputes.
\<close>

record Robot =
  posW :: PTransformd
  bodyPosW :: "string \<Rightarrow> PTransformd"

datatype KinematicsFlags = Flags_pose | Flags_vels

text \<open>
  What one control cycle takes from code that is not in the source files at hand (the
  robot model of the controller, the state-observation library, and the headers of
  this repository that define \<^verbatim>\<open>kinematicsTools\<close> and \<^verbatim>\<open>findContacts\<close>): each is a
  parameter of the model, named after the call it stands for:
  \<^item> the force sensors of \<^verbatim>\<open>ctl.robot\<close>, by sensor name: \<^verbatim>\<open>parentBody()\<close>, \<^verbatim>\<open>X_p_f()\<close> and
    \<^verbatim>\<open>wrenchWithoutGravity(robot).force()\<close>;
  \<^item> \<^verbatim>\<open>ctl.realRobot\<close>: \<^verbatim>\<open>posW()\<close>, \<^verbatim>\<open>velW()\<close>, \<^verbatim>\<open>accW()\<close> (linear and angular part);
  \<^item> the body poses \<^verbatim>\<open>forwardKinematics()\<close> computes for a pose of the floating base
    (the joint configuration is the cycle's), and \<^verbatim>\<open>surfacePose\<close>;
  \<^item> \<^verbatim>\<open>kinematicsTools::poseFromSva\<close>, the product and the inverse of
    \<^verbatim>\<open>so::kine::Kinematics\<close>;
  \<^item> \<^verbatim>\<open>so::kine::skewSymmetricToRotationVector\<close>; the rotation matrix of a rotation
    vector (\<^verbatim>\<open>rotationVectorToAngleAxis\<close>, then \<^verbatim>\<open>Orientation(...).toMatrix3()\<close>); and
    \<^verbatim>\<open>so::kine::mergeRoll1Pitch1WithYaw2AxisAgnostic\<close>;
  \<^item> \<^verbatim>\<open>contactsManager().findContacts\<close>, whose definition is not in the sources: it acts
    on the contacts manager only.

  The lookups of the robot model (\<^verbatim>\<open>forceSensor(name)\<close>, \<^verbatim>\<open>bodyIndexByName\<close>,
  \<^verbatim>\<open>surfacePose\<close>) are total here: the contacts of the manager are made from the force
  sensors and surfaces of the robot.
\<close>

record ExternalModel =
  forceSensor_parentBody :: "string \<Rightarrow> string"
  forceSensor_X_p_f :: "string \<Rightarrow> PTransformd"
  wrenchWithoutGravity_force :: "Robot \<Rightarrow> string \<Rightarrow> vec3"
  realRobot_posW :: PTransformd
  realRobot_velW :: "vec3 \<times> vec3"
  realRobot_accW :: "vec3 \<times> vec3"
  forwardKinematics_bodyPosW :: "PTransformd \<Rightarrow> string \<Rightarrow> PTransformd"
  surfacePose :: "Robot \<Rightarrow> string \<Rightarrow> PTransformd"
  poseFromSva :: "PTransformd \<Rightarrow> KinematicsFlags \<Rightarrow> Kinematics"
  kine_mult :: "Kinematics \<Rightarrow> Kinematics \<Rightarrow> Kinematics"
  kine_getInverse :: "Kinematics \<Rightarrow> Kinematics"
  skewSymmetricToRotationVector :: "mat3 \<Rightarrow> vec3"
  rotationVectorToMatrix3 :: "vec3 \<Rightarrow> mat3"
  mergeRoll1Pitch1WithYaw2AxisAgnostic :: "mat3 \<Rightarrow> mat3 \<Rightarrow> mat3"
  findContacts :: "LeggedOdometryContactsManager \<Rightarrow> error + LeggedOdometryContactsManager"

text \<open>
  \<^verbatim>\<open>LeggedOdometryManager\<close>. \<open>logger\<close> holds the names of the entries of the
  \<^verbatim>\<open>mc_rtc::Logger\<close> that \<^verbatim>\<open>run\<close> and \<^verbatim>\<open>updateContacts\<close> are given by reference.
\<close>

record LeggedOdometryManager =
  odometryName :: string
  odometry6d :: bool
  withNaiveYawEstimation :: bool
  fbPose :: PTransformd
  contactsManager :: LeggedOdometryContactsManager
  odometryRobot :: Robot
  detectionFromThreshold :: bool
  logger :: "string list"

definition forwardKinematics :: "ExternalModel \<Rightarrow> Robot \<Rightarrow> Robot" where
  "forwardKinematics ext r = r\<lparr>bodyPosW := forwardKinematics_bodyPosW ext (posW r)\<rparr>"

definition selectForOrientationOdometry ::
  "LeggedOdometryManager \<Rightarrow> error + LeggedOdometryManager" where
  "selectForOrientationOdometry s =
     bind_err (selectForOrientationOdometry_cm (contactsManager s))
       (\<lambda>m. Inr (s\<lparr>contactsManager := m\<rparr>))"

subsection \<open>The kinematics of a contact\<close>

text \<open>
  \<^verbatim>\<open>getContactKinematics\<close>, lines 305-340. The contact is passed by reference and its
  \<^verbatim>\<open>forceNorm_\<close> is written when the detection is not from thresholds: the result is the
  kinematics and the contact after the call.
\<close>

definition getContactKinematics ::
  "ExternalModel \<Rightarrow> LeggedOdometryManager \<Rightarrow> LoContactWithSensor \<Rightarrow>
     Kinematics \<times> LoContactWithSensor" where
  "getContactKinematics ext s contact =
     (let fs = getName contact;
          bodyContactSensorKine = poseFromSva ext (forceSensor_X_p_f ext fs) Flags_vels;
          worldBodyKineOdometryRobot =
            poseFromSva ext (bodyPosW (odometryRobot s) (forceSensor_parentBody ext fs)) Flags_pose;
          worldSensorKineOdometryRobot =
            kine_mult ext worldBodyKineOdometryRobot bodyContactSensorKine
      in if detectionFromThreshold s then (worldSensorKineOdometryRobot, contact)
         else
           (let worldSurfacePoseOdometryRobot = surfacePose ext (odometryRobot s) (surface contact);
                worldContactKineOdometryRobot =
                  poseFromSva ext worldSurfacePoseOdometryRobot Flags_pose;
                contactSensorKine =
                  kine_mult ext (kine_getInverse ext worldContactKineOdometryRobot)
                    worldSensorKineOdometryRobot
            in (worldContactKineOdometryRobot,
                contact\<lparr>forceNorm :=
                  norm3 (mat_vec (orientation contactSensorKine)
                    (wrenchWithoutGravity_force ext (odometryRobot s) fs))\<rparr>)))"

text \<open>
  \<^verbatim>\<open>setNewContact\<close>, lines 253-303, for the force sensor of the given name. Every access
  \<^verbatim>\<open>contactsManager().contactWithSensor(forceSensor.name())\<close> is to the same element; it
  throws when the name is no key.
\<close>

definition setNewContact :: "ExternalModel \<Rightarrow> string \<Rightarrow> LeggedOdometryManager \<Rightarrow>
    error + LeggedOdometryManager" where
  "setNewContact ext forceSensor s =
     bind_err (contact_name (contactsManager s) forceSensor) (\<lambda>c.
       (let ref =
          (if detectionFromThreshold s then
             (let bodyNewContactPoseRobot = forceSensor_X_p_f ext forceSensor;
                  bodyNewContactKine =
                    \<lparr>position = translation bodyNewContactPoseRobot,
                     orientation = transpose3 (rotation bodyNewContactPoseRobot)\<rparr>;
                  parent = bodyPosW (odometryRobot s) (forceSensor_parentBody ext forceSensor);
                  worldBodyKineOdometryRobot =
                    \<lparr>position = translation parent, orientation = transpose3 (rotation parent)\<rparr>;
                  worldNewContactKineOdometryRobot =
                    kine_mult ext worldBodyKineOdometryRobot bodyNewContactKine
              in \<lparr>position = position worldNewContactKineOdometryRobot,
                  orientation = orientation worldNewContactKineOdometryRobot\<rparr>)
           else
             (let worldSurfacePoseOdometryRobot = surfacePose ext (odometryRobot s) (surface c)
              in \<lparr>position = translation worldSurfacePoseOdometryRobot,
                  orientation = transpose3 (rotation worldSurfacePoseOdometryRobot)\<rparr>));
            ref' = (if \<not> odometry6d s then ref\<lparr>position := set_coeff2 (position ref) 0\<rparr>
                    else ref)
        in Inr (s\<lparr>contactsManager :=
                   modifyContact (contactsManager s) forceSensor
                     (\<lambda>c. c\<lparr>worldRefKine := ref'\<rparr>)\<rparr>)))"

subsection \<open>The log entries\<close>

text \<open>\<^verbatim>\<open>addContactLogEntries\<close> and \<^verbatim>\<open>removeContactLogEntries\<close>, lines 362-386.\<close>

definition contactLogEntries :: "LeggedOdometryManager \<Rightarrow> string \<Rightarrow> string list" where
  "contactLogEntries s contactName =
     [odometryName s @ ''_'' @ contactName @ ''_ref_position'',
      odometryName s @ ''_'' @ contactName @ ''_ref_orientation'',
      odometryName s @ ''_'' @ contactName @ ''_ref_orientation_RollPitchYaw'']"

definition addContactLogEntries :: "string \<Rightarrow> LeggedOdometryManager \<Rightarrow> LeggedOdometryManager" where
  "addContactLogEntries contactName s = s\<lparr>logger := logger s @ contactLogEntries s contactName\<rparr>"

definition removeContactLogEntries :: "string \<Rightarrow> LeggedOdometryManager \<Rightarrow> LeggedOdometryManager" where
  "removeContactLogEntries contactName s =
     s\<lparr>logger := filter (\<lambda>e. e \<notin> set (contactLogEntries s contactName)) (logger s)\<rparr>"

subsection \<open>The fusion of the pose\<close>

text \<open>The local variables of \<^verbatim>\<open>updateContacts\<close>, lines 102-114.\<close>

record FusionSums =
  sumForces_position :: real
  sumForces_orientation :: real
  positionUpdatable :: bool
  orientationUpdatable :: bool
  totalFbPosition :: vec3

definition initialSums :: FusionSums where
  "initialSums =
     \<lparr>sumForces_position = 0, sumForces_orientation = 0, positionUpdatable = False,
      orientationUpdatable = False, totalFbPosition = 0\<rparr>"

text \<open>
  The candidate of one contact for the position of the floating base, lines 130-133,
  from the kinematics \<^verbatim>\<open>getContactKinematics\<close> returned.
\<close>

definition worldFbPositionOdometry ::
  "LeggedOdometryManager \<Rightarrow> LoContactWithSensor \<Rightarrow> Kinematics \<Rightarrow> vec3" where
  "worldFbPositionOdometry s setContact worldContactKineOdometryRobot =
     position (worldRefKine setContact)
       + (translation (posW (odometryRobot s)) - position worldContactKineOdometryRobot)"

text \<open>One iteration of the loop of lines 118-152.\<close>

definition fusionStep :: "ExternalModel \<Rightarrow> int \<Rightarrow> LeggedOdometryManager \<times> FusionSums \<Rightarrow>
    error + LeggedOdometryManager \<times> FusionSums" where
  "fusionStep ext setContactIndex sa =
     (case sa of (s, a) \<Rightarrow>
      bind_err (getNameFromIdx (contactsManager s) setContactIndex) (\<lambda>k.
      bind_err (contact_name (contactsManager s) k) (\<lambda>c0.
        if wasAlreadySet c0 then
          (case getContactKinematics ext s c0 of
             (worldContactKineOdometryRobot, setContact) \<Rightarrow>
               (let a1 = a\<lparr>positionUpdatable := True,
                          sumForces_position := sumForces_position a + forceNorm setContact,
                          totalFbPosition := totalFbPosition a
                            + scale3 (worldFbPositionOdometry s setContact
                                        worldContactKineOdometryRobot)
                                (forceNorm setContact)\<rparr>;
                    oriStep = withNaiveYawEstimation s \<and> useForOrientation setContact;
                    setContact' =
                      (if oriStep then
                         setContact\<lparr>currentWorldOrientation :=
                           mat_mul
                             (mat_mul (orientation (worldRefKine setContact))
                                (transpose3 (orientation worldContactKineOdometryRobot)))
                             (transpose3 (rotation (posW (odometryRobot s))))\<rparr>
                       else setContact);
                    a2 = (if oriStep then
                            a1\<lparr>orientationUpdatable := True,
                               sumForces_orientation :=
                                 sumForces_orientation a1 + forceNorm setContact\<rparr>
                          else a1)
                in Inr (s\<lparr>contactsManager :=
                            modifyContact (contactsManager s) k (\<lambda>c. setContact')\<rparr>, a2)))
        else Inr (s, a))))"

fun fusionLoop :: "ExternalModel \<Rightarrow> int list \<Rightarrow> LeggedOdometryManager \<times> FusionSums \<Rightarrow>
    error + LeggedOdometryManager \<times> FusionSums" where
  "fusionLoop ext [] sa = Inr sa"
| "fusionLoop ext (i # rest) sa = bind_err (fusionStep ext i sa) (fusionLoop ext rest)"

text \<open>
  A reference held by \<^verbatim>\<open>oriOdometryContacts_\<close> is read through the map. No element of the
  map is ever erased, so the reference cannot dangle; the model keeps the case as an
  error of its own.
\<close>

definition deref :: "LeggedOdometryManager \<Rightarrow> string \<Rightarrow> error + LoContactWithSensor" where
  "deref s k = contact_name (contactsManager s) k"

text \<open>
  The blend of two orientation candidates, lines 174-192 (\<^verbatim>\<open>meanOri\<close>). The weight is
  a real quotient: it stands for the quotient of line 180 where
  \<^verbatim>\<open>sumForces_orientation\<close> is not 0, and no property below is about the orientation
  where it is 0.
\<close>

definition blendWeight :: "LoContactWithSensor \<Rightarrow> real \<Rightarrow> real" where
  "blendWeight contact1 sumForces_ori = forceNorm contact1 / sumForces_ori"

definition meanOri ::
  "ExternalModel \<Rightarrow> LoContactWithSensor \<Rightarrow> LoContactWithSensor \<Rightarrow> real \<Rightarrow> mat3" where
  "meanOri ext contact1 contact2 sumForces_ori =
     (let R1 = currentWorldOrientation contact1;
          R2 = currentWorldOrientation contact2;
          u = blendWeight contact1 sumForces_ori;
          diffRot = mat_mul (transpose3 R1) R2;
          diffRotVector = scale3 (skewSymmetricToRotationVector ext diffRot) (1 - u);
          diffRotMatrix = rotationVectorToMatrix3 ext diffRotVector
      in mat_mul R1 diffRotMatrix)"

text \<open>
  Lines 156-200: the pose is updated from the sums, or kept. The quotient of line 159
  has no result when the forces sum to 0.
\<close>

definition updateFbPose :: "ExternalModel \<Rightarrow> LeggedOdometryManager \<Rightarrow> FusionSums \<Rightarrow>
    error + LeggedOdometryManager" where
  "updateFbPose ext s a =
     (if positionUpdatable a then
        bind_err (div3 (totalFbPosition a) (sumForces_position a)) (\<lambda>mean.
        (let s1 = s\<lparr>fbPose := (fbPose s)\<lparr>translation := mean\<rparr>\<rparr>;
             realRobotOri = transpose3 (rotation (realRobot_posW ext));
             refs = oriOdometryContacts (contactsManager s1)
         in if orientationUpdatable a then
              bind_err
                (if length refs = 1 then
                   bind_err (deref s1 (hd refs)) (\<lambda>contact.
                     Inr (s1\<lparr>fbPose := (fbPose s1)\<lparr>rotation :=
                            transpose3 (mergeRoll1Pitch1WithYaw2AxisAgnostic ext realRobotOri
                              (currentWorldOrientation contact))\<rparr>\<rparr>))
                 else Inr s1)
                (\<lambda>s2.
                   if length refs = 2 then
                     bind_err (deref s2 (hd refs)) (\<lambda>contact1.
                     bind_err (deref s2 (hd (tl refs))) (\<lambda>contact2.
                       Inr (s2\<lparr>fbPose := (fbPose s2)\<lparr>rotation :=
                              transpose3 (mergeRoll1Pitch1WithYaw2AxisAgnostic ext realRobotOri
                                (meanOri ext contact1 contact2 (sumForces_orientation a)))\<rparr>\<rparr>)))
                   else Inr s2)
            else Inr s1))
      else Inr s)"

text \<open>
  Lines 102-200 together: the selection, the loop over the found contacts and the
  update of \<^verbatim>\<open>fbPose_\<close>.
\<close>

definition fuse :: "ExternalModel \<Rightarrow> LeggedOdometryManager \<Rightarrow> error + LeggedOdometryManager" where
  "fuse ext s =
     bind_err (selectForOrientationOdometry s) (\<lambda>s0.
     bind_err (fusionLoop ext (contactsFound (contactsManager s0)) (s0, initialSums))
       (\<lambda>sa. updateFbPose ext (fst sa) (snd sa)))"

text \<open>Lines 202-203: the pose is written into the odometry robot.\<close>

definition writeBack :: "ExternalModel \<Rightarrow> LeggedOdometryManager \<Rightarrow> LeggedOdometryManager" where
  "writeBack ext s =
     s\<lparr>odometryRobot := forwardKinematics ext ((odometryRobot s)\<lparr>posW := fbPose s\<rparr>)\<rparr>"

text \<open>
  One iteration of the loop of lines 206-218. \<^verbatim>\<open>robot.forceSensor(name)\<close> is the sensor
  of that name, so \<^verbatim>\<open>fs.name()\<close> is the name of the contact.
\<close>

definition newContactStep :: "ExternalModel \<Rightarrow> int \<Rightarrow> LeggedOdometryManager \<Rightarrow>
    error + LeggedOdometryManager" where
  "newContactStep ext foundContactIndex s =
     bind_err (getNameFromIdx (contactsManager s) foundContactIndex) (\<lambda>k.
     bind_err (contact_name (contactsManager s) k) (\<lambda>foundContact.
       if \<not> wasAlreadySet foundContact then
         (let fs = getName foundContact;
              s1 = s\<lparr>contactsManager :=
                     modifyContact (contactsManager s) k (\<lambda>c. c\<lparr>isSet := True\<rparr>)\<rparr>
          in bind_err (setNewContact ext fs s1) (\<lambda>s2. Inr (addContactLogEntries fs s2)))
       else Inr s))"

fun newContactsLoop :: "ExternalModel \<Rightarrow> int list \<Rightarrow> LeggedOdometryManager \<Rightarrow>
    error + LeggedOdometryManager" where
  "newContactsLoop ext [] s = Inr s"
| "newContactsLoop ext (i # rest) s = bind_err (newContactStep ext i s) (newContactsLoop ext rest)"

text \<open>The loop of lines 220-225.\<close>

fun removedContactsLoop :: "int list \<Rightarrow> LeggedOdometryManager \<Rightarrow> error + LeggedOdometryManager" where
  "removedContactsLoop [] s = Inr s"
| "removedContactsLoop (i # rest) s =
     bind_err (contact_idx (contactsManager s) i) (\<lambda>removedContact.
       removedContactsLoop rest (removeContactLogEntries (getName removedContact) s))"

text \<open>\<^verbatim>\<open>updateContacts\<close>, lines 97-226.\<close>

definition updateContacts :: "ExternalModel \<Rightarrow> LeggedOdometryManager \<Rightarrow>
    error + LeggedOdometryManager" where
  "updateContacts ext s =
     bind_err (fuse ext s) (\<lambda>s1.
     bind_err (newContactsLoop ext (contactsFound (contactsManager s1)) (writeBack ext s1)) (\<lambda>s2.
       removedContactsLoop (removedContacts (contactsManager s2)) s2))"

text \<open>
  \<^verbatim>\<open>updateFbKinematics\<close>, lines 228-251: the pose, the velocities and the accelerations
  written to the caller's \<^verbatim>\<open>pose\<close>, \<^verbatim>\<open>vels\<close> and \<^verbatim>\<open>accs\<close>.
\<close>

record FbKinematics =
  pose :: PTransformd
  vels :: "vec3 \<times> vec3"
  accs :: "vec3 \<times> vec3"

definition updateFbKinematics :: "ExternalModel \<Rightarrow> LeggedOdometryManager \<Rightarrow> FbKinematics" where
  "updateFbKinematics ext s =
     (let realRot = rotation (realRobot_posW ext);
          realLocalLinVel = mat_vec realRot (fst (realRobot_velW ext));
          realLocalAngVel = mat_vec realRot (snd (realRobot_velW ext));
          realLocalLinAcc = mat_vec realRot (fst (realRobot_accW ext));
          realLocalAngAcc = mat_vec realRot (snd (realRobot_accW ext));
          odoRotT = transpose3 (rotation (posW (odometryRobot s)))
      in \<lparr>pose = \<lparr>rotation = rotation (posW (odometryRobot s)),
                  translation = translation (posW (odometryRobot s))\<rparr>,
          vels = (mat_vec odoRotT realLocalLinVel, mat_vec odoRotT realLocalAngVel),
          accs = (mat_vec odoRotT realLocalLinAcc, mat_vec odoRotT realLocalAngAcc)\<rparr>)"

text \<open>
  \<^verbatim>\<open>run\<close>, lines 70-95. Copying \<^verbatim>\<open>mbc()\<close> and \<^verbatim>\<open>mb()\<close> of the real robot gives the odometry
  robot the real robot's configuration, floating base included; after
  \<^verbatim>\<open>forwardKinematics()\<close> its \<^verbatim>\<open>posW()\<close> is the real robot's. The velocity and the
  acceleration the odometry robot is given are read nowhere in the odometry
  (\<^verbatim>\<open>updateFbKinematics\<close> reads those of the real robot) and are left out.
\<close>

definition run :: "ExternalModel \<Rightarrow> LeggedOdometryManager \<Rightarrow>
    error + LeggedOdometryManager \<times> FbKinematics" where
  "run ext s =
     (let s0 = s\<lparr>odometryRobot :=
                  forwardKinematics ext ((odometryRobot s)\<lparr>posW := realRobot_posW ext\<rparr>)\<rparr>
      in bind_err (findContacts ext (contactsManager s0)) (\<lambda>m.
         bind_err (updateContacts ext (s0\<lparr>contactsManager := m\<rparr>)) (\<lambda>s1.
           Inr (s1, updateFbKinematics ext s1))))"

section \<open>Notions used to state the properties\<close>

text \<open>
  The indices of a list resolve: each is the position of a name in the insertion order,
  the name is a key of the map, and the contact under it carries that name (as every
  contact made by \<^verbatim>\<open>addContactToManager\<close> does).
\<close>

definition lookupsOK :: "'a ContactsManager_scheme \<Rightarrow> int list \<Rightarrow> bool" where
  "lookupsOK m ids \<longleftrightarrow>
     (\<forall>i \<in> set ids. \<exists>k c. getNameFromIdx m i = Inr k \<and> listContacts m k = Some c \<and> getName c = k)"

text \<open>
  The state \<^verbatim>\<open>updateContacts\<close> expects from the detection: the indices of
  \<^verbatim>\<open>contactsFound_\<close> and of \<^verbatim>\<open>removedContacts_\<close> resolve.
\<close>

definition wellFormed :: "LeggedOdometryManager \<Rightarrow> bool" where
  "wellFormed s \<longleftrightarrow>
     lookupsOK (contactsManager s) (contactsFound (contactsManager s)) \<and>
     lookupsOK (contactsManager s) (removedContacts (contactsManager s))"

text \<open>The contacts of a list of indices, those that resolve.\<close>

definition contactsOf :: "'a ContactsManager_scheme \<Rightarrow> int list \<Rightarrow> LoContactWithSensor list" where
  "contactsOf m ids =
     concat (map (\<lambda>i. case contact_idx m i of Inr c \<Rightarrow> [c] | Inl e \<Rightarrow> []) ids)"

text \<open>
  The maintained contacts of a cycle: the found contacts with \<^verbatim>\<open>wasAlreadySet_\<close>, in the
  order of \<^verbatim>\<open>contactsFound_\<close>.
\<close>

definition maintainedContacts :: "LeggedOdometryManager \<Rightarrow> LoContactWithSensor list" where
  "maintainedContacts s =
     filter wasAlreadySet (contactsOf (contactsManager s) (contactsFound (contactsManager s)))"

text \<open>
  The candidate of a contact for the position of the floating base, and the force that
  weighs it: the contact's reference position plus the difference of the current
  position of the base and the current position of the contact, and the contact's
  \<^verbatim>\<open>forceNorm_\<close> once \<^verbatim>\<open>getContactKinematics\<close> has run.
\<close>

definition candidate :: "ExternalModel \<Rightarrow> LeggedOdometryManager \<Rightarrow> LoContactWithSensor \<Rightarrow> vec3" where
  "candidate ext s c =
     position (worldRefKine c)
       + (translation (posW (odometryRobot s)) - position (fst (getContactKinematics ext s c)))"

definition force :: "ExternalModel \<Rightarrow> LeggedOdometryManager \<Rightarrow> LoContactWithSensor \<Rightarrow> real" where
  "force ext s c = forceNorm (snd (getContactKinematics ext s c))"

text \<open>
  The force-weighted mean of candidates, \<open>\<Sum>(candidate \<cdot> force) / \<Sum>(force)\<close>: it has a
  value when the forces do not sum to 0.
\<close>

definition weightedMean :: "(vec3 \<times> real) list \<Rightarrow> error + vec3" where
  "weightedMean cfs = div3 (sum_list (map (\<lambda>(c, f). scale3 c f) cfs)) (sum_list (map snd cfs))"

text \<open>
  The world anchor of a new contact for a robot whose floating base is at the pose
  \<open>base\<close>. With the detection from thresholds: the pose of the sensor in its parent body,
  transported by the world pose that forward kinematics gives the parent body when the
  base is at \<open>base\<close>. Otherwise: the pose of the contact's surface on the robot with
  the base at \<open>base\<close>. In flat odometry the height of the anchor is 0.
\<close>

definition anchorAt ::
  "ExternalModel \<Rightarrow> bool \<Rightarrow> bool \<Rightarrow> PTransformd \<Rightarrow> string \<Rightarrow> string \<Rightarrow> Kinematics" where
  "anchorAt ext fromThreshold sixD base sensor surf =
     (let bodies = forwardKinematics_bodyPosW ext base;
          anchor =
            (if fromThreshold then
               (let parent = bodies (forceSensor_parentBody ext sensor);
                    inBody = forceSensor_X_p_f ext sensor;
                    world =
                      kine_mult ext
                        \<lparr>position = translation parent,
                         orientation = transpose3 (rotation parent)\<rparr>
                        \<lparr>position = translation inBody,
                         orientation = transpose3 (rotation inBody)\<rparr>
                in \<lparr>position = position world, orientation = orientation world\<rparr>)
             else
               (let onRobot = surfacePose ext \<lparr>posW = base, bodyPosW = bodies\<rparr> surf
                in \<lparr>position = translation onRobot,
                    orientation = transpose3 (rotation onRobot)\<rparr>))
      in if sixD then anchor else anchor\<lparr>position := set_coeff2 (position anchor) 0\<rparr>)"

text \<open>
  Relations between a contact before and after a step: the same identity (id, name,
  surface, \<^verbatim>\<open>wasAlreadySet_\<close>), and the same data for the position (also the reference
  kinematics, and the force norm when the detection is from thresholds).
\<close>

definition sameIdentity :: "LoContactWithSensor \<Rightarrow> LoContactWithSensor \<Rightarrow> bool" where
  "sameIdentity c c' \<longleftrightarrow>
     getID c' = getID c \<and> getName c' = getName c \<and> surface c' = surface c \<and>
     wasAlreadySet c' = wasAlreadySet c"

definition samePositionData :: "bool \<Rightarrow> LoContactWithSensor \<Rightarrow> LoContactWithSensor \<Rightarrow> bool" where
  "samePositionData thr c c' \<longleftrightarrow>
     sameIdentity c c' \<and> worldRefKine c' = worldRefKine c \<and>
     (thr \<longrightarrow> forceNorm c' = forceNorm c)"

definition sameRegistry ::
  "(LoContactWithSensor \<Rightarrow> LoContactWithSensor \<Rightarrow> bool) \<Rightarrow>
     'a ContactsManager_scheme \<Rightarrow> 'a ContactsManager_scheme \<Rightarrow> bool" where
  "sameRegistry R m m' \<longleftrightarrow>
     insertOrder m' = insertOrder m \<and> contactsFound m' = contactsFound m \<and>
     removedContacts m' = removedContacts m \<and>
     (\<forall>k. rel_option R (listContacts m k) (listContacts m' k))"

text \<open>What no step after the fusion writes: the pose, the robot and the configuration.\<close>

definition sameSetting :: "LeggedOdometryManager \<Rightarrow> LeggedOdometryManager \<Rightarrow> bool" where
  "sameSetting s s' \<longleftrightarrow>
     fbPose s' = fbPose s \<and> odometryRobot s' = odometryRobot s \<and>
     detectionFromThreshold s' = detectionFromThreshold s \<and> odometry6d s' = odometry6d s \<and>
     withNaiveYawEstimation s' = withNaiveYawEstimation s \<and> odometryName s' = odometryName s"

section \<open>A scene to instantiate the properties\<close>

text \<open>
  A robot whose bodies keep their orientation, with one force sensor per foot and hand,
  each at the origin of a body of its own name. The libraries are given their usual
  meaning on poses; the rotation-vector functions are those of a scene without
  rotation (every orientation in it is the identity). The detection leaves the
  manager as it is: the found contacts are those the manager already holds.
\<close>

definition sceneBodyOffset :: "string \<Rightarrow> vec3" where
  "sceneBodyOffset body =
     (if body = ''LeftFootForceSensor'' then (0, 1, - 1)
      else if body = ''RightFootForceSensor'' then (0, - 1, - 1)
      else (1, 0, 1))"

definition sceneExternal :: ExternalModel where
  "sceneExternal =
     \<lparr>forceSensor_parentBody = (\<lambda>n. n),
      forceSensor_X_p_f = (\<lambda>n. PTransformd_Identity),
      wrenchWithoutGravity_force = (\<lambda>r n. (0, 0, 0)),
      realRobot_posW = PTransformd_Identity,
      realRobot_velW = (0, 0),
      realRobot_accW = (0, 0),
      forwardKinematics_bodyPosW =
        (\<lambda>base body. \<lparr>rotation = rotation base,
                        translation = translation base + sceneBodyOffset body\<rparr>),
      surfacePose = (\<lambda>r surf. bodyPosW r surf),
      poseFromSva = (\<lambda>p f. \<lparr>position = translation p, orientation = transpose3 (rotation p)\<rparr>),
      kine_mult =
        (\<lambda>a b. \<lparr>position = position a + mat_vec (orientation a) (position b),
                  orientation = mat_mul (orientation a) (orientation b)\<rparr>),
      kine_getInverse =
        (\<lambda>a. \<lparr>position = - mat_vec (transpose3 (orientation a)) (position a),
                orientation = transpose3 (orientation a)\<rparr>),
      skewSymmetricToRotationVector = (\<lambda>m. 0),
      rotationVectorToMatrix3 = (\<lambda>v. identity3),
      mergeRoll1Pitch1WithYaw2AxisAgnostic = (\<lambda>tilt yaw. yaw),
      findContacts = Inr\<rparr>"

text \<open>
  A contact of the scene: its id and name, whether it was set at the previous cycle,
  its force norm and its reference position.
\<close>

definition sceneContact :: "int \<Rightarrow> string \<Rightarrow> bool \<Rightarrow> real \<Rightarrow> vec3 \<Rightarrow> LoContactWithSensor" where
  "sceneContact i n was f ref =
     (ContactT i n n)\<lparr>isSet := was, wasAlreadySet := was, forceNorm := f,
                      worldRefKine := \<lparr>position = ref, orientation = identity3\<rparr>\<rparr>"

text \<open>
  The manager of the legged odometry with the given contacts, in the order of their
  insertion, and the given found indices; flat odometry with yaw estimation and
  detection from thresholds, the floating base at the pose \<open>base\<close>.
\<close>

definition sceneManager ::
  "LoContactWithSensor list \<Rightarrow> int list \<Rightarrow> PTransformd \<Rightarrow> LeggedOdometryManager" where
  "sceneManager cs found base =
     \<lparr>odometryName = ''LeggedOdometry'', odometry6d = False, withNaiveYawEstimation = True,
      fbPose = base,
      contactsManager =
        \<lparr>listContacts = map_of (map (\<lambda>c. (getName c, c)) cs),
         insertOrder = map getName cs, idx = int (length cs),
         contactsDetectionMethod = Sensors, contactsFound = found, oldContacts = [],
         removedContacts = [], oriOdometryContacts = []\<rparr>,
      odometryRobot =
        \<lparr>posW = base, bodyPosW = forwardKinematics_bodyPosW sceneExternal base\<rparr>,
      detectionFromThreshold = True, logger = []\<rparr>"

text \<open>Two feet that were set at the previous cycle, loaded with 100 N and 50 N.\<close>

definition twoFeet :: LeggedOdometryManager where
  "twoFeet =
     sceneManager
       [sceneContact 0 ''LeftFootForceSensor'' True 100 (1, 1, 0),
        sceneContact 1 ''RightFootForceSensor'' True 50 (4, - 1, 0)]
       [0, 1] PTransformd_Identity"

text \<open>The same feet, both found at this cycle for the first time.\<close>

definition twoNewFeet :: LeggedOdometryManager where
  "twoNewFeet =
     sceneManager
       [sceneContact 0 ''LeftFootForceSensor'' False 100 (0, 0, 0),
        sceneContact 1 ''RightFootForceSensor'' False 50 (0, 0, 0)]
       [0, 1] PTransformd_Identity"

text \<open>
  Three contacts that were set at the previous cycle: the feet with the same force norm
  5, the knee with the given one.
\<close>

definition tiedContacts :: "real \<Rightarrow> LeggedOdometryManager" where
  "tiedContacts f =
     sceneManager
       [sceneContact 0 ''LeftFootForceSensor'' True 5 (0, 1, 0),
        sceneContact 1 ''RightFootForceSensor'' True 5 (0, - 1, 0),
        sceneContact 2 ''LeftKneeForceSensor'' True f (1, 0, 0)]
       [0, 1, 2] PTransformd_Identity"

text \<open>
  The left foot was set at the previous cycle; the right foot is found at this cycle
  for the first time.
\<close>

definition oneNewFoot :: LeggedOdometryManager where
  "oneNewFoot =
     sceneManager
       [sceneContact 0 ''LeftFootForceSensor'' True 100 (1, 1, 0),
        sceneContact 1 ''RightFootForceSensor'' False 50 (0, 0, 0)]
       [0, 1] PTransformd_Identity"

section \<open>The contact classifier\<close>

text \<open>
  Modelled from the spec: \<^verbatim>\<open>ContactsManager::updateContacts\<close> is declared in
  ContactsManager.h (lines 93-98) and defined in ContactsManager.hpp, which is not among
  the sources. The spec, section 4.3: given the previous active set \<open>P\<close> and the new
  active set \<open>N\<close>, it computes \<open>new = N \ P\<close>, \<open>maintained = N \<inter> P\<close> and
  \<open>removed = P \ N\<close>, and invokes, in order, the new-contact callback for each id in
  \<open>new\<close>, the maintained-contact callback for each id in \<open>maintained\<close>, and the
  removed-contact callback for each id in \<open>removed\<close>. The sets are lists in iteration
  order, as \<^verbatim>\<open>contactsFound_\<close> and \<^verbatim>\<open>oldContacts_\<close> are above.
\<close>

definition newContacts :: "int list \<Rightarrow> int list \<Rightarrow> int list" where
  "newContacts P N = filter (\<lambda>i. i \<notin> set P) N"

definition maintainedIds :: "int list \<Rightarrow> int list \<Rightarrow> int list" where
  "maintainedIds P N = filter (\<lambda>i. i \<in> set P) N"

definition removedIds :: "int list \<Rightarrow> int list \<Rightarrow> int list" where
  "removedIds P N = filter (\<lambda>i. i \<notin> set N) P"

definition classifyContacts ::
  "(int \<Rightarrow> 'st \<Rightarrow> 'st) \<Rightarrow> (int \<Rightarrow> 'st \<Rightarrow> 'st) \<Rightarrow> (int \<Rightarrow> 'st \<Rightarrow> 'st) \<Rightarrow>
     int list \<Rightarrow> int list \<Rightarrow> 'st \<Rightarrow> 'st" where
  "classifyContacts onNewContact onMaintainedContact onRemovedContact P N st =
     fold onRemovedContact (removedIds P N)
       (fold onMaintainedContact (maintainedIds P N)
          (fold onNewContact (newContacts P N) st))"

text \<open>Callbacks that record their invocation, to observe the order of the calls.\<close>

datatype ContactEvent = OnNewContact int | OnMaintainedContact int | OnRemovedContact int

definition recordCall :: "(int \<Rightarrow> ContactEvent) \<Rightarrow> int \<Rightarrow> ContactEvent list \<Rightarrow> ContactEvent list" where
  "recordCall ev i calls = calls @ [ev i]"

section \<open>The initialisation of the contacts detection\<close>

text \<open>
  Modelled from the spec: the initialisation of the contacts manager from the
  configured detection mode. \<^verbatim>\<open>init\<close> and \<^verbatim>\<open>init_manager\<close> are declared in ContactsManager.h
  (lines 88 and 159-175) and defined in ContactsManager.hpp, which is not among the
  sources; nor is the code that reads the mode from the configuration. The spec,
  sections 4.2, 6 and 7: the strategy is selected at initialization, from
  \<^verbatim>\<open>contactsDetectionMode\<close> among Solver, Surfaces and Sensors; an unknown detection-mode
  string fails with a configuration error at construction time, not at call time. The
  string is converted by \<^verbatim>\<open>stringToContactsDetection\<close> of the header; the method
  \<^verbatim>\<open>Undefined\<close>, the value of an unconfigured manager for which the header declares no
  initializer, is refused as an unknown mode is.
\<close>

definition initContactsDetection ::
  "string \<Rightarrow> 'a ContactsManager_scheme \<Rightarrow> error + 'a ContactsManager_scheme" where
  "initContactsDetection str m =
     bind_err (stringToContactsDetection str) (\<lambda>d.
       if d = Undefined then Inl RuntimeError
       else Inr (m\<lparr>contactsDetectionMethod := d\<rparr>))"

text \<open>
  Modelled from the spec: the detection of a cycle runs the strategy selected at
  initialization (spec 4.2; the header keeps it in \<^verbatim>\<open>contactsFinder_\<close>, line 67, with the
  three finders declared at lines 72-81, all defined in ContactsManager.hpp). The
  finders are parameters. A manager with no strategy selected has none to run: that
  is the configuration error at call time.
\<close>

definition findContactsWith ::
  "('a ContactsManager_scheme \<Rightarrow> 'a ContactsManager_scheme) \<Rightarrow>
     ('a ContactsManager_scheme \<Rightarrow> 'a ContactsManager_scheme) \<Rightarrow>
     ('a ContactsManager_scheme \<Rightarrow> 'a ContactsManager_scheme) \<Rightarrow>
     'a ContactsManager_scheme \<Rightarrow> error + 'a ContactsManager_scheme" where
  "findContactsWith findContactsFromSolver findContactsFromSurfaces findContactsFromSensors m =
     (case contactsDetectionMethod m of
        Solver \<Rightarrow> Inr (findContactsFromSolver m)
      | Surfaces \<Rightarrow> Inr (findContactsFromSurfaces m)
      | Sensors \<Rightarrow> Inr (findContactsFromSensors m)
      | Undefined \<Rightarrow> Inl RuntimeError)"

section \<open>Properties\<close>

lemma registry_inv_empty: "registry_inv emptyManager"
  by (simp add: registry_inv_def emptyManager_def)

lemma int_wrap_id: "- 2147483648 \<le> x \<Longrightarrow> x \<le> INT_MAX \<Longrightarrow> int_wrap x = x"
  by (simp add: int_wrap_def INT_MAX_def)

lemma insertOrder_addContactToManager:
  "length (insertOrder m) \<le> length (insertOrder (snd (addContactToManager m n s)))"
  by (simp add: addContactToManager_def Let_def split: option.splits)

lemma insertOrder_addContacts:
  "length (insertOrder m) \<le> length (insertOrder (addContacts m ns))"
proof (induction m ns rule: addContacts.induct)
  case (1 m)
  show ?case by simp
next
  case (2 m n s ns)
  from insertOrder_addContactToManager [of m n s] 2 show ?case by simp
qed

lemma registry_inv_add:
  assumes "registry_inv m"
    and bound: "int (length (insertOrder (snd (addContactToManager m n s)))) \<le> INT_MAX"
  shows "registry_inv (snd (addContactToManager m n s))"
proof (cases "listContacts m n")
  case (Some c)
  then show ?thesis using assms by (simp add: addContactToManager_def)
next
  case None
  from assms have idx: "idx m = int (length (insertOrder m))"
    and dist: "distinct (insertOrder m)"
    and dm: "dom (listContacts m) = set (insertOrder m)"
    and ids: "\<forall>i < length (insertOrder m).
        \<exists>c. listContacts m (insertOrder m ! i) = Some c \<and> getID c = int i \<and>
            getName c = insertOrder m ! i"
    by (simp_all add: registry_inv_def)
  from None have "n \<notin> dom (listContacts m)" by (simp add: domIff)
  with dm have fresh: "n \<notin> set (insertOrder m)" by simp
  let ?m' = "snd (addContactToManager m n s)"
  have m': "listContacts ?m' = (listContacts m)(n \<mapsto> ContactT (idx m) n s)"
    "insertOrder ?m' = insertOrder m @ [n]" "idx ?m' = int_wrap (idx m + 1)"
    using None by (simp_all add: addContactToManager_def Let_def)
  from bound have "idx m + 1 \<le> INT_MAX" by (simp add: m' idx)
  then have wrap: "int_wrap (idx m + 1) = idx m + 1"
    by (intro int_wrap_id) (simp_all add: idx)
  have "\<exists>c. listContacts ?m' (insertOrder ?m' ! i) = Some c \<and> getID c = int i \<and>
            getName c = insertOrder ?m' ! i"
    if "i < length (insertOrder ?m')" for i
  proof (cases "i < length (insertOrder m)")
    case True
    then have "insertOrder m ! i \<in> set (insertOrder m)" by simp
    with fresh have "insertOrder m ! i \<noteq> n" by auto
    with True ids show ?thesis by (simp add: m' nth_append)
  next
    case False
    with that have "i = length (insertOrder m)" by (simp add: m')
    then show ?thesis by (simp add: m' idx ContactT_def)
  qed
  moreover have "distinct (insertOrder ?m')" using dist fresh by (simp add: m')
  moreover have "dom (listContacts ?m') = set (insertOrder ?m')" using dm by (simp add: m')
  moreover have "idx ?m' = int (length (insertOrder ?m'))"
  proof -
    have "idx ?m' = idx m + 1" unfolding m' by (rule wrap)
    then show ?thesis by (simp add: m' idx)
  qed
  ultimately show ?thesis unfolding registry_inv_def by blast
qed

lemma registry_inv_addContacts:
  "registry_inv m \<Longrightarrow> int (length (insertOrder (addContacts m ns))) \<le> INT_MAX \<Longrightarrow>
     registry_inv (addContacts m ns)"
proof (induction m ns rule: addContacts.induct)
  case (1 m)
  then show ?case by simp
next
  case (2 m n s ns)
  let ?m1 = "snd (addContactToManager m n s)"
  from insertOrder_addContacts [of ?m1 ns] "2.prems"(2)
  have "int (length (insertOrder ?m1)) \<le> INT_MAX" by simp
  from registry_inv_add [OF "2.prems"(1) this] "2.IH" "2.prems"(2) show ?case by simp
qed

subsection \<open>Results and lookups\<close>

lemma bind_err_Inr_iff:
  "bind_err r f = Inr v \<longleftrightarrow> (\<exists>x. r = Inr x \<and> f x = Inr v)"
  by (cases r) (simp_all add: bind_err_def)

lemma bind_err_Inr [simp]: "bind_err (Inr x) f = f x"
  by (simp add: bind_err_def)

lemma bind_err_Inl [simp]: "bind_err (Inl e) f = Inl e"
  by (simp add: bind_err_def)

lemma contact_name_Inr_iff: "contact_name m k = Inr c \<longleftrightarrow> listContacts m k = Some c"
  by (simp add: contact_name_def split: option.splits)

lemma contact_idx_Inr_iff:
  "contact_idx m i = Inr c \<longleftrightarrow> (\<exists>k. getNameFromIdx m i = Inr k \<and> listContacts m k = Some c)"
  by (simp add: contact_idx_def bind_err_Inr_iff contact_name_Inr_iff)

lemma registry_inv_lookupsOK:
  assumes "registry_inv m" and "\<forall>i \<in> set ids. 0 \<le> i \<and> i < idx m"
  shows "lookupsOK m ids"
  unfolding lookupsOK_def
proof
  fix i assume "i \<in> set ids"
  with assms have r: "0 \<le> i" "i < int (length (insertOrder m))"
    by (auto simp: registry_inv_def)
  then have "nat i < length (insertOrder m)" by simp
  with assms(1) obtain c where "listContacts m (insertOrder m ! nat i) = Some c"
    "getName c = insertOrder m ! nat i"
    unfolding registry_inv_def by blast
  with r show "\<exists>k c. getNameFromIdx m i = Inr k \<and> listContacts m k = Some c \<and> getName c = k"
    by (simp add: getNameFromIdx_def)
qed

subsection \<open>Registries related contact by contact\<close>

lemma sameIdentity_refl [simp]: "sameIdentity c c"
  by (simp add: sameIdentity_def)

lemma samePositionData_refl [simp]: "samePositionData thr c c"
  by (simp add: samePositionData_def)

lemma samePositionData_identity: "samePositionData thr c c' \<Longrightarrow> sameIdentity c c'"
  by (simp add: samePositionData_def)

lemma sameIdentity_trans: "sameIdentity a b \<Longrightarrow> sameIdentity b c \<Longrightarrow> sameIdentity a c"
  by (simp add: sameIdentity_def)

lemma samePositionData_trans:
  "samePositionData thr a b \<Longrightarrow> samePositionData thr b c \<Longrightarrow> samePositionData thr a c"
  by (simp add: samePositionData_def sameIdentity_def)

lemma sameRegistry_refl: "(\<And>c. R c c) \<Longrightarrow> sameRegistry R m m"
  by (simp add: sameRegistry_def option.rel_refl)

lemma sameRegistry_trans:
  assumes "\<And>a b c. R a b \<Longrightarrow> R b c \<Longrightarrow> R a c"
    and "sameRegistry R m1 m2" and "sameRegistry R m2 m3"
  shows "sameRegistry R m1 m3"
proof -
  have "rel_option R (listContacts m1 k) (listContacts m3 k)" for k
  proof -
    from assms(2,3) have a: "rel_option R (listContacts m1 k) (listContacts m2 k)"
      and b: "rel_option R (listContacts m2 k) (listContacts m3 k)"
      by (simp_all add: sameRegistry_def)
    then show ?thesis
      by (cases "listContacts m1 k"; cases "listContacts m2 k"; cases "listContacts m3 k")
        (auto intro: assms(1))
  qed
  with assms(2,3) show ?thesis by (simp add: sameRegistry_def)
qed

lemma sameRegistry_mono:
  assumes "sameRegistry R m m'" and "\<And>c c'. R c c' \<Longrightarrow> S c c'"
  shows "sameRegistry S m m'"
proof -
  have "rel_option S a b" if "rel_option R a b" for a b
    using that assms(2) by (cases a; cases b) auto
  with assms(1) show ?thesis by (simp add: sameRegistry_def)
qed

lemma sameRegistry_modifyContact:
  assumes "\<And>c. R c c" and "\<And>c. R c (f c)"
  shows "sameRegistry R m (modifyContact m k f)"
proof -
  have "rel_option R (listContacts m j) (listContacts (modifyContact m k f) j)" for j
    using assms by (cases "listContacts m j")
      (auto simp: modifyContact_def split: option.splits)
  then show ?thesis
    by (simp add: sameRegistry_def modifyContact_def split: option.splits)
qed

lemma sameRegistry_Some:
  "sameRegistry R m m' \<Longrightarrow> listContacts m' k = Some c' \<Longrightarrow>
     \<exists>c. listContacts m k = Some c \<and> R c c'"
  unfolding sameRegistry_def
  by (metis option.rel_cases option.distinct(1) option.inject)

lemma sameRegistry_Some':
  "sameRegistry R m m' \<Longrightarrow> listContacts m k = Some c \<Longrightarrow>
     \<exists>c'. listContacts m' k = Some c' \<and> R c c'"
  unfolding sameRegistry_def
  by (metis option.rel_cases option.distinct(1) option.inject)

lemma sameRegistry_getNameFromIdx:
  "sameRegistry R m m' \<Longrightarrow> getNameFromIdx m' i = getNameFromIdx m i"
  by (simp add: sameRegistry_def getNameFromIdx_def)

lemma sameRegistry_lookupsOK:
  assumes "sameRegistry sameIdentity m m'" and "lookupsOK m ids"
  shows "lookupsOK m' ids"
  unfolding lookupsOK_def
proof
  fix i assume "i \<in> set ids"
  with assms(2) obtain k c where k: "getNameFromIdx m i = Inr k" "listContacts m k = Some c"
    "getName c = k"
    unfolding lookupsOK_def by blast
  from sameRegistry_Some' [OF assms(1) k(2)] obtain c' where
    "listContacts m' k = Some c'" "sameIdentity c c'" by blast
  with k sameRegistry_getNameFromIdx [OF assms(1)]
  show "\<exists>k c. getNameFromIdx m' i = Inr k \<and> listContacts m' k = Some c \<and> getName c = k"
    by (auto simp: sameIdentity_def)
qed

subsection \<open>The selection keeps the registry\<close>

lemma set_set_insert: "set (set_insert lt x ys) \<subseteq> insert x (set ys)"
  by (induction ys) auto

lemma sameRegistry_ori_update [simp]:
  "sameRegistry R m (m'\<lparr>oriOdometryContacts := x\<rparr>) = sameRegistry R m m'"
  by (simp add: sameRegistry_def)

lemma lookupsOK_ori_update [simp]:
  "lookupsOK (m\<lparr>oriOdometryContacts := x\<rparr>) ids = lookupsOK m ids"
  by (simp add: lookupsOK_def getNameFromIdx_def)

lemma samePositionData_flag [simp]:
  "samePositionData thr c (c\<lparr>useForOrientation := b\<rparr>)"
  by (simp add: samePositionData_def sameIdentity_def)

lemma sameRegistry_flag:
  "sameRegistry (samePositionData thr) m (modifyContact m k (\<lambda>c. c\<lparr>useForOrientation := b\<rparr>))"
  by (rule sameRegistry_modifyContact) simp_all

lemma sameRegistry_dom: "sameRegistry R m m' \<Longrightarrow> dom (listContacts m') = dom (listContacts m)"
proof -
  assume a: "sameRegistry R m m'"
  have "listContacts m' k = None \<longleftrightarrow> listContacts m k = None" for k
    using a unfolding sameRegistry_def
    by (metis option.rel_distinct(1) option.rel_distinct(2) option.exhaust)
  then show ?thesis by (auto simp: dom_def)
qed

lemma sameRegistry_pos_trans:
  assumes "sameRegistry (samePositionData thr) m1 m2"
    and "sameRegistry (samePositionData thr) m2 m3"
  shows "sameRegistry (samePositionData thr) m1 m3"
  by (rule sameRegistry_trans [where R = "samePositionData thr", OF _ assms])
    (rule samePositionData_trans)

lemma sameRegistry_id_trans:
  assumes "sameRegistry sameIdentity m1 m2" and "sameRegistry sameIdentity m2 m3"
  shows "sameRegistry sameIdentity m1 m3"
  by (rule sameRegistry_trans [where R = sameIdentity, OF _ assms])
    (rule sameIdentity_trans)

lemma sameRegistry_pos_id:
  "sameRegistry (samePositionData thr) m m' \<Longrightarrow> sameRegistry sameIdentity m m'"
  by (erule sameRegistry_mono) (rule samePositionData_identity)

lemma selectLoop_frame:
  assumes "selectLoop ids m = Inr m'"
    and "set (oriOdometryContacts m) \<subseteq> dom (listContacts m)"
  shows "sameRegistry (samePositionData thr) m m' \<and>
         set (oriOdometryContacts m') \<subseteq> dom (listContacts m')"
  using assms
proof (induction ids arbitrary: m)
  case Nil
  then show ?case by (simp add: sameRegistry_refl)
next
  case (Cons i rest)
  from Cons.prems(1) obtain k contact where
    k: "getNameFromIdx m i = Inr k" and c: "listContacts m k = Some contact"
    and step: "(if \<not> occurs ''Hand'' (getName contact) then
         (let m1 = modifyContact m k (\<lambda>c. c\<lparr>useForOrientation := True\<rparr>) in
          selectLoop rest
            (m1\<lparr>oriOdometryContacts :=
                  set_insert (sortByForce_ref m1) k (oriOdometryContacts m1)\<rparr>))
       else selectLoop rest m) = Inr m'"
    by (auto simp: bind_err_Inr_iff contact_name_Inr_iff)
  show ?case
  proof (cases "occurs ''Hand'' (getName contact)")
    case True
    with step Cons.IH [of m] Cons.prems(2) show ?thesis by simp
  next
    case False
    let ?m1 = "modifyContact m k (\<lambda>c. c\<lparr>useForOrientation := True\<rparr>)"
    let ?m2 = "?m1\<lparr>oriOdometryContacts := set_insert (sortByForce_ref ?m1) k (oriOdometryContacts ?m1)\<rparr>"
    have r1: "sameRegistry (samePositionData thr) m ?m1" by (rule sameRegistry_flag)
    then have r2: "sameRegistry (samePositionData thr) m ?m2" by simp
    have d: "dom (listContacts ?m2) = dom (listContacts m)"
      using sameRegistry_dom [OF r2] .
    have o1: "oriOdometryContacts ?m1 = oriOdometryContacts m"
      by (simp add: modifyContact_def split: option.splits)
    have "set (oriOdometryContacts ?m2) \<subseteq> insert k (set (oriOdometryContacts m))"
      using set_set_insert [of "sortByForce_ref ?m1" k "oriOdometryContacts m"] by (simp add: o1)
    moreover from c have "k \<in> dom (listContacts m)" by auto
    ultimately have sub: "set (oriOdometryContacts ?m2) \<subseteq> dom (listContacts ?m2)"
      using Cons.prems(2) d by auto
    from step False have "selectLoop rest ?m2 = Inr m'" by (simp add: Let_def)
    from Cons.IH [OF this sub]
    have r3: "sameRegistry (samePositionData thr) ?m2 m'"
      and sub': "set (oriOdometryContacts m') \<subseteq> dom (listContacts m')" by blast+
    from sameRegistry_pos_trans [OF r2 r3] sub' show ?thesis by blast
  qed
qed

lemma selectLoop_total:
  assumes "lookupsOK m ids"
  shows "\<exists>m'. selectLoop ids m = Inr m'"
  using assms
proof (induction ids arbitrary: m)
  case Nil
  then show ?case by simp
next
  case (Cons i rest)
  from Cons.prems obtain k c where
    k: "getNameFromIdx m i = Inr k" "listContacts m k = Some c"
    and rest: "lookupsOK m rest"
    by (auto simp: lookupsOK_def)
  let ?m1 = "modifyContact m k (\<lambda>c. c\<lparr>useForOrientation := True\<rparr>)"
  have "sameRegistry sameIdentity m ?m1"
    by (rule sameRegistry_mono [OF sameRegistry_flag [where thr = True]])
      (rule samePositionData_identity)
  from sameRegistry_lookupsOK [OF this rest] have "lookupsOK ?m1 rest" .
  then have "\<exists>m'. selectLoop rest
      (?m1\<lparr>oriOdometryContacts := set_insert (sortByForce_ref ?m1) k (oriOdometryContacts ?m1)\<rparr>)
      = Inr m'"
    by (intro Cons.IH) simp
  moreover from rest have "\<exists>m'. selectLoop rest m = Inr m'" by (rule Cons.IH)
  ultimately show ?case using k by (simp add: contact_name_def Let_def)
qed

lemma evictLoop_frame:
  assumes "set (oriOdometryContacts m) \<subseteq> dom (listContacts m)"
  shows "sameRegistry (samePositionData thr) m (evictLoop m) \<and>
         set (oriOdometryContacts (evictLoop m)) \<subseteq> dom (listContacts (evictLoop m)) \<and>
         length (oriOdometryContacts (evictLoop m)) \<le> 2"
  using assms
proof (induction m rule: evictLoop.induct)
  case (1 m)
  show ?case
  proof (cases "length (oriOdometryContacts m) > 2")
    case False
    then have "evictLoop m = m" by (subst evictLoop.simps) simp
    with False "1.prems" show ?thesis by (simp add: sameRegistry_refl)
  next
    case True
    let ?m1 = "modifyContact m (hd (oriOdometryContacts m)) (\<lambda>c. c\<lparr>useForOrientation := False\<rparr>)"
    let ?m2 = "?m1\<lparr>oriOdometryContacts := tl (oriOdometryContacts m)\<rparr>"
    have r2: "sameRegistry (samePositionData thr) m ?m2"
      using sameRegistry_flag [of thr m] by simp
    have o2: "oriOdometryContacts ?m2 = tl (oriOdometryContacts m)" by simp
    from True have "set (tl (oriOdometryContacts m)) \<subseteq> set (oriOdometryContacts m)"
      by (cases "oriOdometryContacts m") auto
    with "1.prems" sameRegistry_dom [OF r2]
    have sub: "set (oriOdometryContacts ?m2) \<subseteq> dom (listContacts ?m2)"
      unfolding o2 by blast
    have ev: "evictLoop m = evictLoop ?m2" using True by (subst evictLoop.simps) simp
    from "1.IH" [OF True sub]
    have r3: "sameRegistry (samePositionData thr) ?m2 (evictLoop ?m2)"
      and rest: "set (oriOdometryContacts (evictLoop ?m2)) \<subseteq> dom (listContacts (evictLoop ?m2))"
        "length (oriOdometryContacts (evictLoop ?m2)) \<le> 2" by blast+
    from sameRegistry_pos_trans [OF r2 r3] rest show ?thesis
      unfolding ev by blast
  qed
qed

lemma selectForOrientationOdometry_frame:
  assumes "selectForOrientationOdometry s = Inr s'"
  shows "sameRegistry (samePositionData thr) (contactsManager s) (contactsManager s') \<and>
         set (oriOdometryContacts (contactsManager s')) \<subseteq> dom (listContacts (contactsManager s')) \<and>
         length (oriOdometryContacts (contactsManager s')) \<le> 2 \<and>
         sameSetting s s' \<and> logger s' = logger s"
proof -
  let ?m = "contactsManager s"
  from assms obtain m1 where
    m1: "selectLoop (contactsFound ?m) (?m\<lparr>oriOdometryContacts := []\<rparr>) = Inr m1"
    and s': "s' = s\<lparr>contactsManager := evictLoop m1\<rparr>"
    by (auto simp: selectForOrientationOdometry_def selectForOrientationOdometry_cm_def
        bind_err_Inr_iff)
  from selectLoop_frame [OF m1, of thr]
  have a: "sameRegistry (samePositionData thr) (?m\<lparr>oriOdometryContacts := []\<rparr>) m1"
    and b: "set (oriOdometryContacts m1) \<subseteq> dom (listContacts m1)" by simp_all
  from a have a': "sameRegistry (samePositionData thr) ?m m1"
    by (simp add: sameRegistry_def)
  from evictLoop_frame [OF b, of thr]
  have c: "sameRegistry (samePositionData thr) m1 (evictLoop m1)"
    and d: "set (oriOdometryContacts (evictLoop m1)) \<subseteq> dom (listContacts (evictLoop m1))"
      "length (oriOdometryContacts (evictLoop m1)) \<le> 2" by blast+
  from sameRegistry_pos_trans [OF a' c] d show ?thesis
    by (simp add: s' sameSetting_def)
qed

lemma selectForOrientationOdometry_total:
  assumes "lookupsOK (contactsManager s) (contactsFound (contactsManager s))"
  shows "\<exists>s'. selectForOrientationOdometry s = Inr s'"
proof -
  from assms have "lookupsOK ((contactsManager s)\<lparr>oriOdometryContacts := []\<rparr>)
      (contactsFound (contactsManager s))" by simp
  from selectLoop_total [OF this] show ?thesis
    by (auto simp: selectForOrientationOdometry_def selectForOrientationOdometry_cm_def)
qed

subsection \<open>The loop over the found contacts\<close>

lemma sameRegistry_overwrite:
  assumes "sameRegistry R m0 m" and "listContacts m0 k = Some c0" and "R c0 c'"
  shows "sameRegistry R m0 (modifyContact m k (\<lambda>c. c'))"
proof -
  from sameRegistry_Some' [OF assms(1,2)] obtain c where c: "listContacts m k = Some c" by blast
  have "rel_option R (listContacts m0 j) (listContacts (modifyContact m k (\<lambda>c. c')) j)" for j
    using assms c by (simp add: sameRegistry_def modifyContact_def)
  with assms(1) c show ?thesis
    by (simp add: sameRegistry_def modifyContact_def)
qed

lemma getContactKinematics_snd:
  "snd (getContactKinematics ext s c) = c\<lparr>forceNorm := force ext s c\<rparr>"
  by (simp add: force_def getContactKinematics_def Let_def)

lemma getContactKinematics_related:
  assumes "samePositionData (detectionFromThreshold s0) c0 c"
    and "sameSetting s0 s"
  shows "fst (getContactKinematics ext s c) = fst (getContactKinematics ext s0 c0)"
    and "force ext s c = force ext s0 c0"
  using assms
  by (simp_all add: force_def getContactKinematics_def Let_def samePositionData_def
      sameIdentity_def sameSetting_def)

lemma contactsOf_Cons: "contactsOf m (i # rest) = contactsOf m [i] @ contactsOf m rest"
  by (simp add: contactsOf_def)

lemma contactsOf_single:
  "getNameFromIdx m i = Inr k \<Longrightarrow> listContacts m k = Some c \<Longrightarrow> contactsOf m [i] = [c]"
  by (simp add: contactsOf_def contact_idx_def contact_name_def)

lemma fusionStep_sums:
  assumes step: "fusionStep ext i (s, a) = Inr (s', a')"
    and reg: "sameRegistry (samePositionData (detectionFromThreshold s0))
               (contactsManager s0) (contactsManager s)"
    and set: "sameSetting s0 s"
  defines "ms \<equiv> filter wasAlreadySet (contactsOf (contactsManager s0) [i])"
  shows "sameRegistry (samePositionData (detectionFromThreshold s0))
           (contactsManager s0) (contactsManager s')"
    and "sameSetting s0 s'"
    and "logger s' = logger s"
    and "oriOdometryContacts (contactsManager s') = oriOdometryContacts (contactsManager s)"
    and "sumForces_position a' = sumForces_position a + sum_list (map (force ext s0) ms)"
    and "totalFbPosition a' = totalFbPosition a
           + sum_list (map (\<lambda>c. scale3 (candidate ext s0 c) (force ext s0 c)) ms)"
    and "positionUpdatable a' = (positionUpdatable a \<or> ms \<noteq> [])"
proof -
  from step obtain k c where
    k: "getNameFromIdx (contactsManager s) i = Inr k"
    and c: "listContacts (contactsManager s) k = Some c"
    by (auto simp: fusionStep_def bind_err_Inr_iff contact_name_Inr_iff)
  from sameRegistry_Some [OF reg c] obtain c0 where
    c0: "listContacts (contactsManager s0) k = Some c0"
    and rel: "samePositionData (detectionFromThreshold s0) c0 c" by blast
  from k have k0: "getNameFromIdx (contactsManager s0) i = Inr k"
    by (simp add: sameRegistry_getNameFromIdx [OF reg])
  have ms: "ms = (if wasAlreadySet c then [c0] else [])"
    using rel by (simp add: ms_def contactsOf_single [OF k0 c0] samePositionData_def sameIdentity_def)
  have all: "sameRegistry (samePositionData (detectionFromThreshold s0))
           (contactsManager s0) (contactsManager s')
    \<and> sameSetting s0 s' \<and> logger s' = logger s
    \<and> oriOdometryContacts (contactsManager s') = oriOdometryContacts (contactsManager s)
    \<and> sumForces_position a' = sumForces_position a + sum_list (map (force ext s0) ms)
    \<and> totalFbPosition a' = totalFbPosition a
           + sum_list (map (\<lambda>c. scale3 (candidate ext s0 c) (force ext s0 c)) ms)
    \<and> positionUpdatable a' = (positionUpdatable a \<or> ms \<noteq> [])"
  proof (cases "wasAlreadySet c")
    case False
    with step k c have "s' = s" "a' = a"
      by (simp_all add: fusionStep_def contact_name_def)
    with False reg set ms show ?thesis by simp
  next
    case True
    let ?kine = "fst (getContactKinematics ext s c)"
    let ?sc = "snd (getContactKinematics ext s c)"
    let ?ori = "withNaiveYawEstimation s \<and> useForOrientation ?sc"
    let ?sc' = "if ?ori then
                  ?sc\<lparr>currentWorldOrientation :=
                     mat_mul (mat_mul (orientation (worldRefKine ?sc)) (transpose3 (orientation ?kine)))
                       (transpose3 (rotation (posW (odometryRobot s))))\<rparr>
                else ?sc"
    let ?a1 = "a\<lparr>positionUpdatable := True,
                 sumForces_position := sumForces_position a + forceNorm ?sc,
                 totalFbPosition := totalFbPosition a
                   + scale3 (worldFbPositionOdometry s ?sc ?kine) (forceNorm ?sc)\<rparr>"
    from step k c True have s': "s' = s\<lparr>contactsManager :=
          modifyContact (contactsManager s) k (\<lambda>c. ?sc')\<rparr>"
      and a': "a' = (if ?ori then
                       ?a1\<lparr>orientationUpdatable := True,
                           sumForces_orientation := sumForces_orientation ?a1 + forceNorm ?sc\<rparr>
                     else ?a1)"
      by (auto simp: fusionStep_def contact_name_def Let_def case_prod_beta)
    have f: "forceNorm ?sc = force ext s0 c0"
      using getContactKinematics_related(2) [OF rel set] by (simp add: force_def)
    have kn: "?kine = fst (getContactKinematics ext s0 c0)"
      using getContactKinematics_related(1) [OF rel set] .
    have wr: "worldRefKine ?sc = worldRefKine c0"
      using rel by (simp add: getContactKinematics_snd samePositionData_def)
    have cand: "worldFbPositionOdometry s ?sc ?kine = candidate ext s0 c0"
      using set by (simp add: worldFbPositionOdometry_def candidate_def wr kn sameSetting_def)
    have thr: "detectionFromThreshold s0 \<Longrightarrow> force ext s c = forceNorm c"
      using set by (simp add: force_def getContactKinematics_def Let_def sameSetting_def)
    have rel': "samePositionData (detectionFromThreshold s0) c0 ?sc'"
      using rel thr by (simp add: getContactKinematics_snd samePositionData_def sameIdentity_def)
    have reg': "sameRegistry (samePositionData (detectionFromThreshold s0))
        (contactsManager s0) (contactsManager s')"
      unfolding s' using sameRegistry_overwrite [OF reg c0 rel'] by simp
    have o: "oriOdometryContacts (contactsManager s') = oriOdometryContacts (contactsManager s)"
      by (simp add: s' modifyContact_def c)
    from reg' o set True show ?thesis
      by (simp add: ms a' f cand) (simp add: s' sameSetting_def)
  qed
  then show "sameRegistry (samePositionData (detectionFromThreshold s0))
           (contactsManager s0) (contactsManager s')"
    and "sameSetting s0 s'"
    and "logger s' = logger s"
    and "oriOdometryContacts (contactsManager s') = oriOdometryContacts (contactsManager s)"
    and "sumForces_position a' = sumForces_position a + sum_list (map (force ext s0) ms)"
    and "totalFbPosition a' = totalFbPosition a
           + sum_list (map (\<lambda>c. scale3 (candidate ext s0 c) (force ext s0 c)) ms)"
    and "positionUpdatable a' = (positionUpdatable a \<or> ms \<noteq> [])"
    by blast+
qed

lemma sameSetting_refl [simp]: "sameSetting s s"
  by (simp add: sameSetting_def)

lemma sameSetting_trans: "sameSetting a b \<Longrightarrow> sameSetting b c \<Longrightarrow> sameSetting a c"
  by (simp add: sameSetting_def)

lemma fusionLoop_sums:
  assumes "fusionLoop ext ids (s, a) = Inr (s', a')"
    and "sameRegistry (samePositionData (detectionFromThreshold s0))
               (contactsManager s0) (contactsManager s)"
    and "sameSetting s0 s"
  shows "sameRegistry (samePositionData (detectionFromThreshold s0))
           (contactsManager s0) (contactsManager s')
    \<and> sameSetting s0 s' \<and> logger s' = logger s
    \<and> oriOdometryContacts (contactsManager s') = oriOdometryContacts (contactsManager s)
    \<and> sumForces_position a' = sumForces_position a
         + sum_list (map (force ext s0) (filter wasAlreadySet (contactsOf (contactsManager s0) ids)))
    \<and> totalFbPosition a' = totalFbPosition a
         + sum_list (map (\<lambda>c. scale3 (candidate ext s0 c) (force ext s0 c))
             (filter wasAlreadySet (contactsOf (contactsManager s0) ids)))
    \<and> positionUpdatable a' =
         (positionUpdatable a \<or> filter wasAlreadySet (contactsOf (contactsManager s0) ids) \<noteq> [])"
  using assms
proof (induction ids arbitrary: s a)
  case Nil
  then show ?case by (simp add: contactsOf_def)
next
  case (Cons i rest)
  from Cons.prems(1) obtain s1 a1 where
    step: "fusionStep ext i (s, a) = Inr (s1, a1)"
    and loop: "fusionLoop ext rest (s1, a1) = Inr (s', a')"
    by (auto simp: bind_err_Inr_iff)
  note st = fusionStep_sums [OF step Cons.prems(2,3)]
  note ih = Cons.IH [OF loop st(1) st(2)]
  from ih st(3-7) show ?case
    by (simp add: contactsOf_Cons [of _ i rest] add.assoc)
qed

lemma fusionStep_total:
  assumes "lookupsOK (contactsManager s) [i]"
  shows "\<exists>s' a'. fusionStep ext i (s, a) = Inr (s', a')"
proof -
  from assms obtain k c where "getNameFromIdx (contactsManager s) i = Inr k"
    "listContacts (contactsManager s) k = Some c"
    by (auto simp: lookupsOK_def)
  then show ?thesis
    by (simp add: fusionStep_def contact_name_def Let_def case_prod_beta)
qed

lemma fusionLoop_total:
  assumes "lookupsOK (contactsManager s) ids"
  shows "\<exists>s' a'. fusionLoop ext ids (s, a) = Inr (s', a')"
  using assms
proof (induction ids arbitrary: s a)
  case Nil
  then show ?case by simp
next
  case (Cons i rest)
  from Cons.prems have "lookupsOK (contactsManager s) [i]" and rest: "lookupsOK (contactsManager s) rest"
    by (simp_all add: lookupsOK_def)
  from fusionStep_total [OF this(1)] obtain s1 a1 where
    step: "fusionStep ext i (s, a) = Inr (s1, a1)" by blast
  have "sameRegistry (samePositionData (detectionFromThreshold s))
      (contactsManager s) (contactsManager s1)"
    by (rule fusionStep_sums(1) [OF step]) (simp_all add: sameRegistry_refl)
  from sameRegistry_lookupsOK [OF sameRegistry_pos_id [OF this] rest]
  have "lookupsOK (contactsManager s1) rest" .
  from Cons.IH [OF this] step show ?case by simp
qed

subsection \<open>The update of the pose\<close>

lemma updateFbPose_frame:
  assumes "updateFbPose ext s a = Inr s'"
  shows "contactsManager s' = contactsManager s \<and> odometryRobot s' = odometryRobot s
    \<and> detectionFromThreshold s' = detectionFromThreshold s \<and> odometry6d s' = odometry6d s
    \<and> withNaiveYawEstimation s' = withNaiveYawEstimation s \<and> odometryName s' = odometryName s
    \<and> logger s' = logger s
    \<and> (\<not> positionUpdatable a \<longrightarrow> s' = s)
    \<and> (positionUpdatable a \<longrightarrow>
          Inr (translation (fbPose s')) = div3 (totalFbPosition a) (sumForces_position a))"
  using assms
  by (auto simp: updateFbPose_def Let_def deref_def bind_err_Inr_iff split: if_splits)

lemma div3_Inr: "a \<noteq> 0 \<Longrightarrow> \<exists>v'. div3 v a = Inr v'"
  by (cases v) (simp add: div3_def)

lemma updateFbPose_total:
  assumes "set (oriOdometryContacts (contactsManager s)) \<subseteq> dom (listContacts (contactsManager s))"
    and "positionUpdatable a \<longrightarrow> sumForces_position a \<noteq> 0"
  shows "\<exists>s'. updateFbPose ext s a = Inr s'"
proof (cases "positionUpdatable a")
  case False
  then show ?thesis by (simp add: updateFbPose_def)
next
  case pu: True
  with assms(2) div3_Inr obtain mean where
    mean: "div3 (totalFbPosition a) (sumForces_position a) = Inr mean" by blast
  let ?refs = "oriOdometryContacts (contactsManager s)"
  have one: "\<exists>c. listContacts (contactsManager s) (hd ?refs) = Some c" if "length ?refs = 1"
    using that assms by (cases ?refs) auto
  have two: "\<exists>c. listContacts (contactsManager s) (hd ?refs) = Some c"
    "\<exists>c. listContacts (contactsManager s) (hd (tl ?refs)) = Some c" if "length ?refs = 2"
    using that assms by (cases ?refs; cases "tl ?refs"; auto)+
  show ?thesis
  proof (cases "length ?refs = 1")
    case True
    with one pu mean show ?thesis
      by (auto simp: updateFbPose_def Let_def deref_def contact_name_def)
  next
    case False
    show ?thesis
    proof (cases "length ?refs = 2")
      case True
      with two pu mean show ?thesis
        by (auto simp: updateFbPose_def Let_def deref_def contact_name_def)
    next
      case f2: False
      with False pu mean show ?thesis
        by (simp add: updateFbPose_def Let_def)
    qed
  qed
qed

subsection \<open>The loops over the new and the removed contacts\<close>

lemma sameIdentity_isSet [simp]: "sameIdentity c (c\<lparr>isSet := b\<rparr>)"
  by (simp add: sameIdentity_def)

lemma sameIdentity_worldRefKine [simp]: "sameIdentity c (c\<lparr>worldRefKine := r\<rparr>)"
  by (simp add: sameIdentity_def)

lemma oriOdometryContacts_modifyContact [simp]:
  "oriOdometryContacts (modifyContact m k f) = oriOdometryContacts m"
  by (simp add: modifyContact_def split: option.splits)

lemma setNewContact_frame:
  assumes "setNewContact ext n s = Inr s'"
  shows "sameRegistry sameIdentity (contactsManager s) (contactsManager s')
    \<and> sameSetting s s' \<and> logger s' = logger s
    \<and> oriOdometryContacts (contactsManager s') = oriOdometryContacts (contactsManager s)"
proof -
  from assms obtain r where
    "s' = s\<lparr>contactsManager := modifyContact (contactsManager s) n (\<lambda>c. c\<lparr>worldRefKine := r\<rparr>)\<rparr>"
    by (auto simp: setNewContact_def bind_err_Inr_iff Let_def)
  then show ?thesis
    by (simp add: sameSetting_def sameRegistry_modifyContact)
qed

lemma newContactStep_frame:
  assumes "newContactStep ext i s = Inr s'"
  shows "sameRegistry sameIdentity (contactsManager s) (contactsManager s')
    \<and> sameSetting s s'
    \<and> oriOdometryContacts (contactsManager s') = oriOdometryContacts (contactsManager s)"
proof -
  from assms obtain k c where
    "getNameFromIdx (contactsManager s) i = Inr k"
    "contact_name (contactsManager s) k = Inr c"
    and step: "(if \<not> wasAlreadySet c then
         (let fs = getName c;
              s1 = s\<lparr>contactsManager :=
                     modifyContact (contactsManager s) k (\<lambda>c. c\<lparr>isSet := True\<rparr>)\<rparr>
          in bind_err (setNewContact ext fs s1) (\<lambda>s2. Inr (addContactLogEntries fs s2)))
       else Inr s) = Inr s'"
    by (auto simp: newContactStep_def bind_err_Inr_iff)
  show ?thesis
  proof (cases "wasAlreadySet c")
    case True
    with step show ?thesis by (simp add: sameRegistry_refl)
  next
    case False
    let ?s1 = "s\<lparr>contactsManager := modifyContact (contactsManager s) k (\<lambda>c. c\<lparr>isSet := True\<rparr>)\<rparr>"
    from step False obtain s2 where
      s2: "setNewContact ext (getName c) ?s1 = Inr s2"
      and s': "s' = addContactLogEntries (getName c) s2"
      by (auto simp: Let_def bind_err_Inr_iff)
    have r1: "sameRegistry sameIdentity (contactsManager s) (contactsManager ?s1)"
      by (simp add: sameRegistry_modifyContact)
    from setNewContact_frame [OF s2]
    have r2: "sameRegistry sameIdentity (contactsManager ?s1) (contactsManager s2)"
      and set: "sameSetting ?s1 s2"
      and o: "oriOdometryContacts (contactsManager s2) = oriOdometryContacts (contactsManager ?s1)"
      by blast+
    from sameRegistry_id_trans [OF r1 r2] set o show ?thesis
      by (simp add: s' addContactLogEntries_def sameSetting_def)
  qed
qed

lemma newContactsLoop_frame:
  assumes "newContactsLoop ext ids s = Inr s'"
  shows "sameRegistry sameIdentity (contactsManager s) (contactsManager s')
    \<and> sameSetting s s'
    \<and> oriOdometryContacts (contactsManager s') = oriOdometryContacts (contactsManager s)"
  using assms
proof (induction ids arbitrary: s)
  case Nil
  then show ?case by (simp add: sameRegistry_refl)
next
  case (Cons i rest)
  from Cons.prems obtain s1 where
    step: "newContactStep ext i s = Inr s1" and loop: "newContactsLoop ext rest s1 = Inr s'"
    by (auto simp: bind_err_Inr_iff)
  from newContactStep_frame [OF step] Cons.IH [OF loop] show ?case
    by (auto intro: sameRegistry_id_trans sameSetting_trans)
qed

lemma newContactStep_total:
  assumes "lookupsOK (contactsManager s) [i]"
  shows "\<exists>s'. newContactStep ext i s = Inr s'"
proof -
  from assms obtain k c where k: "getNameFromIdx (contactsManager s) i = Inr k"
    and c: "listContacts (contactsManager s) k = Some c" and n: "getName c = k"
    by (auto simp: lookupsOK_def)
  let ?s1 = "s\<lparr>contactsManager := modifyContact (contactsManager s) k (\<lambda>c. c\<lparr>isSet := True\<rparr>)\<rparr>"
  from c have "listContacts (contactsManager ?s1) k = Some (c\<lparr>isSet := True\<rparr>)"
    by (simp add: modifyContact_def)
  then have "\<exists>s2. setNewContact ext k ?s1 = Inr s2"
    by (simp add: setNewContact_def contact_name_def Let_def)
  with k c n show ?thesis
    by (auto simp: newContactStep_def contact_name_def Let_def)
qed

lemma newContactsLoop_total:
  assumes "lookupsOK (contactsManager s) ids"
  shows "\<exists>s'. newContactsLoop ext ids s = Inr s'"
  using assms
proof (induction ids arbitrary: s)
  case Nil
  then show ?case by simp
next
  case (Cons i rest)
  from Cons.prems have "lookupsOK (contactsManager s) [i]" and rest: "lookupsOK (contactsManager s) rest"
    by (simp_all add: lookupsOK_def)
  from newContactStep_total [OF this(1)] obtain s1 where
    step: "newContactStep ext i s = Inr s1" by blast
  from newContactStep_frame [OF step]
  have "sameRegistry sameIdentity (contactsManager s) (contactsManager s1)" by blast
  from sameRegistry_lookupsOK [OF this rest] have "lookupsOK (contactsManager s1) rest" .
  from Cons.IH [OF this] step show ?case by simp
qed

lemma removedContactsLoop_frame:
  assumes "removedContactsLoop ids s = Inr s'"
  shows "contactsManager s' = contactsManager s \<and> sameSetting s s'"
  using assms
proof (induction ids arbitrary: s)
  case Nil
  then show ?case by simp
next
  case (Cons i rest)
  from Cons.prems obtain c where
    "contact_idx (contactsManager s) i = Inr c"
    and loop: "removedContactsLoop rest (removeContactLogEntries (getName c) s) = Inr s'"
    by (auto simp: bind_err_Inr_iff)
  from Cons.IH [OF loop] show ?case
    by (simp add: removeContactLogEntries_def sameSetting_def)
qed

lemma removedContactsLoop_total:
  assumes "lookupsOK (contactsManager s) ids"
  shows "\<exists>s'. removedContactsLoop ids s = Inr s'"
  using assms
proof (induction ids arbitrary: s)
  case Nil
  then show ?case by simp
next
  case (Cons i rest)
  from Cons.prems obtain k c where k: "getNameFromIdx (contactsManager s) i = Inr k"
    "listContacts (contactsManager s) k = Some c"
    and rest: "lookupsOK (contactsManager s) rest"
    by (auto simp: lookupsOK_def)
  from rest have "lookupsOK (contactsManager (removeContactLogEntries (getName c) s)) rest"
    by (simp add: removeContactLogEntries_def)
  from Cons.IH [OF this] k show ?case
    by (simp add: contact_idx_def contact_name_def)
qed

lemma writeBack_frame:
  "contactsManager (writeBack ext s) = contactsManager s"
  "fbPose (writeBack ext s) = fbPose s"
  "posW (odometryRobot (writeBack ext s)) = fbPose s"
  "bodyPosW (odometryRobot (writeBack ext s)) = forwardKinematics_bodyPosW ext (fbPose s)"
  "logger (writeBack ext s) = logger s"
  "detectionFromThreshold (writeBack ext s) = detectionFromThreshold s"
  "odometry6d (writeBack ext s) = odometry6d s"
  by (simp_all add: writeBack_def forwardKinematics_def)

subsection \<open>The fusion as a whole\<close>

lemma weightedMean_map:
  "weightedMean (map (\<lambda>c. (f c, g c)) cs) =
     div3 (sum_list (map (\<lambda>c. scale3 (f c) (g c)) cs)) (sum_list (map g cs))"
  by (simp add: weightedMean_def comp_def)

lemma fuse_result:
  assumes "fuse ext s = Inr s1"
  shows "sameRegistry (samePositionData (detectionFromThreshold s))
           (contactsManager s) (contactsManager s1)"
    and "odometryRobot s1 = odometryRobot s"
    and "detectionFromThreshold s1 = detectionFromThreshold s"
    and "odometry6d s1 = odometry6d s"
    and "logger s1 = logger s"
    and "maintainedContacts s = [] \<Longrightarrow> fbPose s1 = fbPose s"
    and "maintainedContacts s \<noteq> [] \<Longrightarrow>
           Inr (translation (fbPose s1)) =
             weightedMean (map (\<lambda>c. (candidate ext s c, force ext s c)) (maintainedContacts s))"
proof -
  from assms obtain s0 s' a' where
    sel: "selectForOrientationOdometry s = Inr s0"
    and loop: "fusionLoop ext (contactsFound (contactsManager s0)) (s0, initialSums) = Inr (s', a')"
    and upd: "updateFbPose ext s' a' = Inr s1"
    by (auto simp: fuse_def bind_err_Inr_iff)
  from selectForOrientationOdometry_frame [OF sel, of "detectionFromThreshold s"]
  have reg0: "sameRegistry (samePositionData (detectionFromThreshold s))
      (contactsManager s) (contactsManager s0)"
    and set0: "sameSetting s s0" and log0: "logger s0 = logger s" by blast+
  from reg0 have found: "contactsFound (contactsManager s0) = contactsFound (contactsManager s)"
    by (simp add: sameRegistry_def)
  note fl = fusionLoop_sums [OF loop reg0 set0, unfolded found, folded maintainedContacts_def]
  note uf = updateFbPose_frame [OF upd]
  from fl uf show "sameRegistry (samePositionData (detectionFromThreshold s))
           (contactsManager s) (contactsManager s1)" by simp
  from fl uf show "odometryRobot s1 = odometryRobot s" by (simp add: sameSetting_def)
  from fl uf show "detectionFromThreshold s1 = detectionFromThreshold s"
    by (simp add: sameSetting_def)
  from fl uf show "odometry6d s1 = odometry6d s" by (simp add: sameSetting_def)
  from fl uf log0 show "logger s1 = logger s" by simp
  from fl have pu: "positionUpdatable a' = (maintainedContacts s \<noteq> [])"
    and tot: "totalFbPosition a' =
        sum_list (map (\<lambda>c. scale3 (candidate ext s c) (force ext s c)) (maintainedContacts s))"
    and sm: "sumForces_position a' = sum_list (map (force ext s) (maintainedContacts s))"
    and fb: "fbPose s' = fbPose s"
    by (simp_all add: initialSums_def sameSetting_def)
  show "fbPose s1 = fbPose s" if "maintainedContacts s = []"
    using that uf pu fb by simp
  show "Inr (translation (fbPose s1)) =
      weightedMean (map (\<lambda>c. (candidate ext s c, force ext s c)) (maintainedContacts s))"
    if "maintainedContacts s \<noteq> []"
    using that uf pu by (simp add: weightedMean_map tot sm)
qed

lemma fuse_total:
  assumes "lookupsOK (contactsManager s) (contactsFound (contactsManager s))"
    and nz: "maintainedContacts s = [] \<or>
        sum_list (map (force ext s) (maintainedContacts s)) \<noteq> 0"
  shows "\<exists>s1. fuse ext s = Inr s1"
proof -
  from selectForOrientationOdometry_total [OF assms(1)] obtain s0 where
    sel: "selectForOrientationOdometry s = Inr s0" by blast
  from selectForOrientationOdometry_frame [OF sel, of True]
  have reg0: "sameRegistry (samePositionData True) (contactsManager s) (contactsManager s0)"
    and sub0: "set (oriOdometryContacts (contactsManager s0))
        \<subseteq> dom (listContacts (contactsManager s0))" by blast+
  from reg0 have found: "contactsFound (contactsManager s0) = contactsFound (contactsManager s)"
    by (simp add: sameRegistry_def)
  from sameRegistry_lookupsOK [OF sameRegistry_pos_id [OF reg0] assms(1)]
  have "lookupsOK (contactsManager s0) (contactsFound (contactsManager s0))" by (simp add: found)
  from fusionLoop_total [OF this] obtain s' a' where
    loop: "fusionLoop ext (contactsFound (contactsManager s0)) (s0, initialSums) = Inr (s', a')"
    by blast
  from fusionLoop_sums [OF loop, of s0]
  have reg': "sameRegistry (samePositionData (detectionFromThreshold s0))
      (contactsManager s0) (contactsManager s')"
    and o: "oriOdometryContacts (contactsManager s') = oriOdometryContacts (contactsManager s0)"
    by (simp_all add: sameRegistry_refl)
  from sub0 o sameRegistry_dom [OF reg']
  have sub: "set (oriOdometryContacts (contactsManager s')) \<subseteq> dom (listContacts (contactsManager s'))"
    by simp
  from selectForOrientationOdometry_frame [OF sel, of "detectionFromThreshold s"]
  have regs: "sameRegistry (samePositionData (detectionFromThreshold s))
      (contactsManager s) (contactsManager s0)"
    and sets: "sameSetting s s0" by blast+
  from fusionLoop_sums [OF loop regs sets, unfolded found, folded maintainedContacts_def]
  have "positionUpdatable a' = (maintainedContacts s \<noteq> [])"
    and "sumForces_position a' = sum_list (map (force ext s) (maintainedContacts s))"
    by (simp_all add: initialSums_def)
  with nz have "positionUpdatable a' \<longrightarrow> sumForces_position a' \<noteq> 0" by auto
  from updateFbPose_total [OF sub this] obtain s1 where "updateFbPose ext s' a' = Inr s1" by blast
  with sel loop show ?thesis by (simp add: fuse_def)
qed

lemma updateContacts_total:
  assumes "wellFormed s"
    and nz: "maintainedContacts s = [] \<or>
        sum_list (map (force ext s) (maintainedContacts s)) \<noteq> 0"
  shows "\<exists>s'. updateContacts ext s = Inr s'"
proof -
  from assms have f: "lookupsOK (contactsManager s) (contactsFound (contactsManager s))"
    and r: "lookupsOK (contactsManager s) (removedContacts (contactsManager s))"
    by (simp_all add: wellFormed_def)
  from fuse_total [OF f nz] obtain s1 where fuse: "fuse ext s = Inr s1" by blast
  from fuse_result(1) [OF fuse]
  have reg1: "sameRegistry sameIdentity (contactsManager s) (contactsManager s1)"
    by (rule sameRegistry_pos_id)
  then have eq1: "contactsFound (contactsManager s1) = contactsFound (contactsManager s)"
    "removedContacts (contactsManager s1) = removedContacts (contactsManager s)"
    by (simp_all add: sameRegistry_def)
  from sameRegistry_lookupsOK [OF reg1 f]
  have "lookupsOK (contactsManager (writeBack ext s1)) (contactsFound (contactsManager s1))"
    by (simp add: writeBack_frame eq1)
  from newContactsLoop_total [OF this] obtain s2 where
    loop: "newContactsLoop ext (contactsFound (contactsManager s1)) (writeBack ext s1) = Inr s2"
    by blast
  from newContactsLoop_frame [OF loop]
  have reg2: "sameRegistry sameIdentity (contactsManager s1) (contactsManager s2)"
    by (simp add: writeBack_frame)
  then have eq2: "removedContacts (contactsManager s2) = removedContacts (contactsManager s1)"
    by (simp add: sameRegistry_def)
  from sameRegistry_lookupsOK [OF sameRegistry_id_trans [OF reg1 reg2] r]
  have "lookupsOK (contactsManager s2) (removedContacts (contactsManager s2))"
    by (simp add: eq1 eq2)
  from removedContactsLoop_total [OF this] obtain s' where
    "removedContactsLoop (removedContacts (contactsManager s2)) s2 = Inr s'" by blast
  with fuse loop show ?thesis by (simp add: updateContacts_def)
qed

lemma updateContacts_result:
  assumes "updateContacts ext s = Inr s'"
  shows "\<exists>s1. fuse ext s = Inr s1 \<and> fbPose s' = fbPose s1 \<and> posW (odometryRobot s') = fbPose s1
    \<and> bodyPosW (odometryRobot s') = forwardKinematics_bodyPosW ext (fbPose s1)"
proof -
  from assms obtain s1 s2 where
    fuse: "fuse ext s = Inr s1"
    and loop: "newContactsLoop ext (contactsFound (contactsManager s1)) (writeBack ext s1) = Inr s2"
    and rem: "removedContactsLoop (removedContacts (contactsManager s2)) s2 = Inr s'"
    by (auto simp: updateContacts_def bind_err_Inr_iff)
  from newContactsLoop_frame [OF loop] have "sameSetting (writeBack ext s1) s2" by blast
  moreover from removedContactsLoop_frame [OF rem] have "sameSetting s2 s'" by blast
  ultimately have "sameSetting (writeBack ext s1) s'" by (rule sameSetting_trans)
  with fuse show ?thesis by (simp add: sameSetting_def writeBack_frame)
qed

subsection \<open>The candidate set is ordered and holds at most two contacts\<close>

lemma sorted_wrt_set_insert:
  assumes "sorted_wrt lt ys" and "\<And>a b c. lt a b \<Longrightarrow> lt b c \<Longrightarrow> lt a c"
  shows "sorted_wrt lt (set_insert lt x ys)"
  using assms(1)
proof (induction ys)
  case Nil
  show ?case by simp
next
  case (Cons y ys)
  from Cons.prems have y: "\<forall>z \<in> set ys. lt y z" and ys: "sorted_wrt lt ys" by simp_all
  show ?case
  proof (cases "lt x y")
    case True
    with y assms(2) have "\<forall>z \<in> set ys. lt x z" by blast
    with True Cons.prems show ?thesis by simp
  next
    case False
    show ?thesis
    proof (cases "lt y x")
      case True
      from set_set_insert [of lt x ys] y True
      have "\<forall>z \<in> set (set_insert lt x ys). lt y z" by auto
      with False True Cons.IH [OF ys] show ?thesis by simp
    next
      case f: False
      with False Cons.prems show ?thesis by simp
    qed
  qed
qed

lemma sortByForce_ref_trans:
  "sortByForce_ref m a b \<Longrightarrow> sortByForce_ref m b c \<Longrightarrow> sortByForce_ref m a c"
  by (auto simp: sortByForce_ref_def sortByForce_def split: option.splits)

lemma sortByForce_ref_sameRegistry:
  assumes "sameRegistry (samePositionData True) m m'"
  shows "sortByForce_ref m' = sortByForce_ref m"
proof -
  have f: "map_option forceNorm (listContacts m' k) = map_option forceNorm (listContacts m k)"
    for k
  proof -
    have "rel_option (samePositionData True) (listContacts m k) (listContacts m' k)"
      using assms by (simp add: sameRegistry_def)
    then show ?thesis
      by (cases "listContacts m k"; cases "listContacts m' k")
        (simp_all add: samePositionData_def)
  qed
  have "sortByForce_ref m' a b = sortByForce_ref m a b" for a b
    using f [of a] f [of b]
    by (cases "listContacts m a"; cases "listContacts m b"; cases "listContacts m' a";
        cases "listContacts m' b")
      (simp_all add: sortByForce_ref_def sortByForce_def)
  then show ?thesis by (intro ext)
qed

lemma selectLoop_sorted:
  assumes "selectLoop ids m = Inr m'"
    and "set (oriOdometryContacts m) \<subseteq> dom (listContacts m)"
    and "sorted_wrt (sortByForce_ref m) (oriOdometryContacts m)"
  shows "sorted_wrt (sortByForce_ref m') (oriOdometryContacts m')"
  using assms
proof (induction ids arbitrary: m)
  case Nil
  then show ?case by simp
next
  case (Cons i rest)
  from Cons.prems(1) obtain k contact where
    k: "getNameFromIdx m i = Inr k" and c: "listContacts m k = Some contact"
    and step: "(if \<not> occurs ''Hand'' (getName contact) then
         (let m1 = modifyContact m k (\<lambda>c. c\<lparr>useForOrientation := True\<rparr>) in
          selectLoop rest
            (m1\<lparr>oriOdometryContacts :=
                  set_insert (sortByForce_ref m1) k (oriOdometryContacts m1)\<rparr>))
       else selectLoop rest m) = Inr m'"
    by (auto simp: bind_err_Inr_iff contact_name_Inr_iff)
  show ?case
  proof (cases "occurs ''Hand'' (getName contact)")
    case True
    with step Cons.IH [of m] Cons.prems(2,3) show ?thesis by simp
  next
    case False
    let ?m1 = "modifyContact m k (\<lambda>c. c\<lparr>useForOrientation := True\<rparr>)"
    let ?m2 = "?m1\<lparr>oriOdometryContacts := set_insert (sortByForce_ref ?m1) k (oriOdometryContacts ?m1)\<rparr>"
    have r1: "sameRegistry (samePositionData True) m ?m1" by (rule sameRegistry_flag)
    then have r2: "sameRegistry (samePositionData True) m ?m2" by simp
    have lt1: "sortByForce_ref ?m1 = sortByForce_ref m"
      by (rule sortByForce_ref_sameRegistry [OF r1])
    have lt2: "sortByForce_ref ?m2 = sortByForce_ref m"
      by (rule sortByForce_ref_sameRegistry [OF r2])
    have o1: "oriOdometryContacts ?m1 = oriOdometryContacts m" by simp
    have srt: "sorted_wrt (sortByForce_ref ?m2) (oriOdometryContacts ?m2)"
      unfolding lt2 using sorted_wrt_set_insert [OF Cons.prems(3), of k]
      by (simp add: lt1 o1) (meson sortByForce_ref_trans)
    have "set (oriOdometryContacts ?m2) \<subseteq> insert k (set (oriOdometryContacts m))"
      using set_set_insert [of "sortByForce_ref ?m1" k "oriOdometryContacts m"] by (simp add: o1)
    moreover from c have "k \<in> dom (listContacts m)" by auto
    ultimately have sub: "set (oriOdometryContacts ?m2) \<subseteq> dom (listContacts ?m2)"
      using Cons.prems(2) sameRegistry_dom [OF r2] by auto
    from step False have "selectLoop rest ?m2 = Inr m'" by (simp add: Let_def)
    from Cons.IH [OF this sub srt] show ?thesis .
  qed
qed

lemma evictLoop_sorted:
  assumes "sorted_wrt (sortByForce_ref m) (oriOdometryContacts m)"
  shows "sorted_wrt (sortByForce_ref (evictLoop m)) (oriOdometryContacts (evictLoop m))"
  using assms
proof (induction m rule: evictLoop.induct)
  case (1 m)
  show ?case
  proof (cases "length (oriOdometryContacts m) > 2")
    case False
    then have "evictLoop m = m" by (subst evictLoop.simps) simp
    with "1.prems" show ?thesis by simp
  next
    case True
    let ?m1 = "modifyContact m (hd (oriOdometryContacts m)) (\<lambda>c. c\<lparr>useForOrientation := False\<rparr>)"
    let ?m2 = "?m1\<lparr>oriOdometryContacts := tl (oriOdometryContacts m)\<rparr>"
    have r2: "sameRegistry (samePositionData True) m ?m2"
      using sameRegistry_flag [of True m] by simp
    have lt2: "sortByForce_ref ?m2 = sortByForce_ref m"
      by (rule sortByForce_ref_sameRegistry [OF r2])
    from "1.prems" have "sorted_wrt (sortByForce_ref m) (tl (oriOdometryContacts m))"
      by (cases "oriOdometryContacts m") simp_all
    then have srt: "sorted_wrt (sortByForce_ref ?m2) (oriOdometryContacts ?m2)"
      by (simp add: lt2)
    have ev: "evictLoop m = evictLoop ?m2" using True by (subst evictLoop.simps) simp
    from "1.IH" [OF True srt] show ?thesis unfolding ev .
  qed
qed

lemma selectForOrientationOdometry_sorted:
  assumes "selectForOrientationOdometry s = Inr s'"
  shows "sorted_wrt (sortByForce_ref (contactsManager s')) (oriOdometryContacts (contactsManager s'))
    \<and> length (oriOdometryContacts (contactsManager s')) \<le> 2"
proof -
  let ?m = "contactsManager s"
  from assms obtain m1 where
    m1: "selectLoop (contactsFound ?m) (?m\<lparr>oriOdometryContacts := []\<rparr>) = Inr m1"
    and s': "s' = s\<lparr>contactsManager := evictLoop m1\<rparr>"
    by (auto simp: selectForOrientationOdometry_def selectForOrientationOdometry_cm_def
        bind_err_Inr_iff)
  from selectLoop_sorted [OF m1]
  have "sorted_wrt (sortByForce_ref m1) (oriOdometryContacts m1)" by simp
  from evictLoop_sorted [OF this] selectForOrientationOdometry_frame [OF assms, of True]
  show ?thesis by (simp add: s')
qed

subsection \<open>The contact registry\<close>

text \<open>
  Claim C8. Adding a contact is idempotent by name: a second call of
  \<^verbatim>\<open>addContactToManager\<close> with the same name (whatever the surface) returns the contact
  the first call returned, which is the element of the map under that name, and
  leaves the manager, so its counter \<^verbatim>\<open>idx_\<close> and its insertion order, as the first call
  left it. On the first insertion of a name the contact gets the current value of the
  counter as its id and the name is appended to the insertion order; the counter is
  incremented as a C++ \<^verbatim>\<open>int\<close> is: by one below \<^verbatim>\<open>INT_MAX\<close>, and from \<^verbatim>\<open>INT_MAX\<close> to
  \<^verbatim>\<open>INT_MIN\<close>. In every manager built from the empty one by insertions of at most
  \<^verbatim>\<open>INT_MAX\<close> names, the contact under the \<open>i\<close>-th name of the insertion order has the
  id \<open>i\<close>, the names are distinct and the counter is their number: ids follow the
  insertion order and none is given twice.
\<close>

theorem addContactToManager_idempotent:
  fixes m :: "'a ContactsManager_scheme" and ns :: "(string \<times> string) list"
  defines "r \<equiv> addContacts emptyManager ns"
  shows "(case addContactToManager m n s1 of (c1, m1) \<Rightarrow>
            (case addContactToManager m1 n s2 of (c2, m2) \<Rightarrow>
               c2 = c1 \<and> m2 = m1 \<and> idx m2 = idx m1 \<and> insertOrder m2 = insertOrder m1 \<and>
               listContacts m2 n = Some c1))
         \<and> (listContacts m n = None \<longrightarrow>
              (case addContactToManager m n s1 of (c1, m1) \<Rightarrow>
                 getID c1 = idx m \<and> getName c1 = n \<and>
                 insertOrder m1 = insertOrder m @ [n] \<and>
                 idx m1 = int_wrap (idx m + 1) \<and>
                 (- 2147483648 \<le> idx m \<and> idx m < INT_MAX \<longrightarrow> idx m1 = idx m + 1) \<and>
                 (idx m = INT_MAX \<longrightarrow> idx m1 = - 2147483648)))
         \<and> (int (length (insertOrder r)) \<le> INT_MAX \<longrightarrow>
              idx r = int (length (insertOrder r)) \<and> distinct (insertOrder r) \<and>
              (\<forall>i < length (insertOrder r).
                 map_option getID (listContacts r (insertOrder r ! i)) = Some (int i)))"
proof -
  have twice: "case addContactToManager m n s1 of (c1, m1) \<Rightarrow>
            (case addContactToManager m1 n s2 of (c2, m2) \<Rightarrow>
               c2 = c1 \<and> m2 = m1 \<and> idx m2 = idx m1 \<and> insertOrder m2 = insertOrder m1 \<and>
               listContacts m2 n = Some c1)"
    by (cases "listContacts m n") (simp_all add: addContactToManager_def Let_def)
  have first: "listContacts m n = None \<longrightarrow>
              (case addContactToManager m n s1 of (c1, m1) \<Rightarrow>
                 getID c1 = idx m \<and> getName c1 = n \<and>
                 insertOrder m1 = insertOrder m @ [n] \<and>
                 idx m1 = int_wrap (idx m + 1) \<and>
                 (- 2147483648 \<le> idx m \<and> idx m < INT_MAX \<longrightarrow> idx m1 = idx m + 1) \<and>
                 (idx m = INT_MAX \<longrightarrow> idx m1 = - 2147483648))"
    by (simp add: addContactToManager_def Let_def ContactT_def int_wrap_def INT_MAX_def)
  have inv: "idx r = int (length (insertOrder r)) \<and> distinct (insertOrder r) \<and>
      (\<forall>i < length (insertOrder r).
         map_option getID (listContacts r (insertOrder r ! i)) = Some (int i))"
    if "int (length (insertOrder r)) \<le> INT_MAX"
  proof -
    from that have b: "int (length (insertOrder (addContacts emptyManager ns))) \<le> INT_MAX"
      by (simp add: r_def)
    have "registry_inv r"
      unfolding r_def by (rule registry_inv_addContacts [OF registry_inv_empty b])
    then show ?thesis unfolding registry_inv_def by auto
  qed
  from twice first inv show ?thesis by blast
qed

theorem addContactToManager_idempotent_witness:
  "listContacts emptyManager ''LeftFootForceSensor'' = None
   \<and> - 2147483648 \<le> idx emptyManager \<and> idx emptyManager < INT_MAX
   \<and> getID (fst (addContactToManager emptyManager ''LeftFootForceSensor'' ''LeftFoot'')) = 0
   \<and> idx (snd (addContactToManager emptyManager ''LeftFootForceSensor'' ''LeftFoot'')) = 1
   \<and> addContactToManager
        (snd (addContactToManager emptyManager ''LeftFootForceSensor'' ''LeftFoot''))
        ''LeftFootForceSensor'' ''RightFoot''
      = addContactToManager emptyManager ''LeftFootForceSensor'' ''LeftFoot''
   \<and> int (length (insertOrder (addContacts emptyManager
          [(''LeftFootForceSensor'', ''LeftFoot''), (''RightFootForceSensor'', ''RightFoot''),
           (''LeftFootForceSensor'', '''')]))) \<le> INT_MAX
   \<and> (1::nat) < length (insertOrder (addContacts emptyManager
          [(''LeftFootForceSensor'', ''LeftFoot''), (''RightFootForceSensor'', ''RightFoot''),
           (''LeftFootForceSensor'', '''')]))
   \<and> map_option getID
        (listContacts
           (addContacts emptyManager
              [(''LeftFootForceSensor'', ''LeftFoot''), (''RightFootForceSensor'', ''RightFoot''),
               (''LeftFootForceSensor'', '''')])
           ''RightFootForceSensor'') = Some 1"
  using addContactToManager_idempotent
    [where m = emptyManager and n = "''LeftFootForceSensor''" and ?s1.0 = "''LeftFoot''"
       and ?s2.0 = "''RightFoot''"
       and ns = "[(''LeftFootForceSensor'', ''LeftFoot''), (''RightFootForceSensor'', ''RightFoot''),
          (''LeftFootForceSensor'', '''')]"]
  by (simp add: addContactToManager_def emptyManager_def Let_def ContactT_def int_wrap_def
      INT_MAX_def)

text \<open>
  At the end of the range the counter wraps: a manager whose counter is \<^verbatim>\<open>INT_MAX\<close>
  gives that id and is left with the counter \<^verbatim>\<open>INT_MIN\<close>.
\<close>

lemma addContactToManager_at_INT_MAX:
  "idx (snd (addContactToManager (emptyManager\<lparr>idx := 2147483647\<rparr>) ''LeftFootForceSensor'' ''''))
     = - 2147483648"
  by (simp add: addContactToManager_def emptyManager_def Let_def int_wrap_def)

subsection \<open>The detection mode\<close>

text \<open>
  What the header's \<^verbatim>\<open>stringToContactsDetection\<close> does by itself: it throws for every
  string that is no key of its table, and returns the method for each of the four
  keys, \<^verbatim>\<open>"Undefined"\<close> among them.
\<close>

lemma stringToContactsDetection_table:
  "(\<forall>str. str \<notin> {''Solver'', ''Surfaces'', ''Sensors'', ''Undefined''} \<longrightarrow>
          stringToContactsDetection str = Inl RuntimeError)
   \<and> stringToContactsDetection ''Solver'' = Inr Solver
   \<and> stringToContactsDetection ''Surfaces'' = Inr Surfaces
   \<and> stringToContactsDetection ''Sensors'' = Inr Sensors
   \<and> stringToContactsDetection ''Undefined'' = Inr Undefined"
  by (simp add: stringToContactsDetection_def strToContactsDetection_def)

text \<open>
  Claim C9, on the initialisation as the spec describes it. For every detection-mode
  string that is none of the recognised modes the initialisation fails with the
  configuration error; for every recognised mode it succeeds and selects the method of
  that name. Whenever the initialisation has succeeded, the string was a recognised mode
  and the detection of a cycle runs the selected strategy and returns: no configuration
  error is left to the per-cycle call.
\<close>

theorem initContactsDetection_modes:
  "(\<forall>str. str \<notin> set recognizedModes \<longrightarrow> initContactsDetection str m = Inl RuntimeError)
   \<and> (\<forall>str \<in> set recognizedModes.
        \<exists>d. stringToContactsDetection str = Inr d \<and>
            initContactsDetection str m = Inr (m\<lparr>contactsDetectionMethod := d\<rparr>))
   \<and> (\<forall>str m'. initContactsDetection str m = Inr m' \<longrightarrow>
        str \<in> set recognizedModes \<and> contactsDetectionMethod m' \<noteq> Undefined \<and>
        (\<exists>found. findContactsWith fromSolver fromSurfaces fromSensors m' = Inr found))"
proof -
  have keys: "str \<notin> {''Solver'', ''Surfaces'', ''Sensors'', ''Undefined''} \<Longrightarrow>
      stringToContactsDetection str = Inl RuntimeError" for str
    using stringToContactsDetection_table by simp
  have unknown: "initContactsDetection str m = Inl RuntimeError"
    if "str \<notin> set recognizedModes" for str
  proof (cases "str = ''Undefined''")
    case True
    then show ?thesis
      using stringToContactsDetection_table by (simp add: initContactsDetection_def)
  next
    case False
    with that have "str \<notin> {''Solver'', ''Surfaces'', ''Sensors'', ''Undefined''}"
      by (simp add: recognizedModes_def)
    from keys [OF this] show ?thesis by (simp add: initContactsDetection_def)
  qed
  have known: "\<exists>d. stringToContactsDetection str = Inr d \<and>
            initContactsDetection str m = Inr (m\<lparr>contactsDetectionMethod := d\<rparr>)"
    if "str \<in> set recognizedModes" for str
  proof -
    from that have "str = ''Surfaces'' \<or> str = ''Sensors'' \<or> str = ''Solver''"
      by (simp add: recognizedModes_def)
    then show ?thesis
      by (elim disjE)
        (simp_all add: initContactsDetection_def stringToContactsDetection_def
          strToContactsDetection_def)
  qed
  have after: "str \<in> set recognizedModes \<and> contactsDetectionMethod m' \<noteq> Undefined \<and>
        (\<exists>found. findContactsWith fromSolver fromSurfaces fromSensors m' = Inr found)"
    if ok: "initContactsDetection str m = Inr m'" for str m'
  proof -
    have r: "str \<in> set recognizedModes"
    proof (rule ccontr)
      assume "str \<notin> set recognizedModes"
      from unknown [OF this] ok show False by simp
    qed
    from ok obtain d where "d \<noteq> Undefined" "m' = m\<lparr>contactsDetectionMethod := d\<rparr>"
      by (auto simp: initContactsDetection_def bind_err_Inr_iff split: if_splits)
    then have "contactsDetectionMethod m' \<noteq> Undefined"
      and "\<exists>found. findContactsWith fromSolver fromSurfaces fromSensors m' = Inr found"
      by (cases d; simp add: findContactsWith_def)+
    with r show ?thesis by simp
  qed
  have A: "\<forall>str. str \<notin> set recognizedModes \<longrightarrow>
      initContactsDetection str m = Inl RuntimeError"
    using unknown by (intro allI impI)
  have B: "\<forall>str \<in> set recognizedModes.
        \<exists>d. stringToContactsDetection str = Inr d \<and>
            initContactsDetection str m = Inr (m\<lparr>contactsDetectionMethod := d\<rparr>)"
    using known by (intro ballI)
  have C: "\<forall>str m'. initContactsDetection str m = Inr m' \<longrightarrow>
        str \<in> set recognizedModes \<and> contactsDetectionMethod m' \<noteq> Undefined \<and>
        (\<exists>found. findContactsWith fromSolver fromSurfaces fromSensors m' = Inr found)"
    using after by (intro allI impI)
  show ?thesis by (intro conjI) (rule A, rule B, rule C)
qed

theorem initContactsDetection_modes_witness:
  "''Undefined'' \<notin> set recognizedModes
   \<and> initContactsDetection ''Undefined'' emptyManager = Inl RuntimeError
   \<and> ''fromThreshold'' \<notin> set recognizedModes
   \<and> initContactsDetection ''fromThreshold'' emptyManager = Inl RuntimeError
   \<and> ''Sensors'' \<in> set recognizedModes
   \<and> initContactsDetection ''Sensors'' emptyManager
       = Inr (emptyManager\<lparr>contactsDetectionMethod := Sensors\<rparr>)
   \<and> findContactsWith id id id (emptyManager\<lparr>contactsDetectionMethod := Sensors\<rparr>)
       = Inr (emptyManager\<lparr>contactsDetectionMethod := Sensors\<rparr>)"
proof -
  have a: "''Undefined'' \<notin> set recognizedModes" "''fromThreshold'' \<notin> set recognizedModes"
    by (simp_all add: recognizedModes_def)
  have b: "''Sensors'' \<in> set recognizedModes" by (simp add: recognizedModes_def)
  note t = initContactsDetection_modes [of emptyManager id id id]
  from t have u: "\<And>str. str \<notin> set recognizedModes \<Longrightarrow>
      initContactsDetection str emptyManager = Inl RuntimeError"
    and k: "\<And>str. str \<in> set recognizedModes \<Longrightarrow>
      \<exists>d. stringToContactsDetection str = Inr d \<and>
        initContactsDetection str emptyManager = Inr (emptyManager\<lparr>contactsDetectionMethod := d\<rparr>)"
    by simp_all
  have s: "stringToContactsDetection ''Sensors'' = Inr Sensors"
    by (simp add: stringToContactsDetection_def strToContactsDetection_def)
  from k [OF b] s have i: "initContactsDetection ''Sensors'' emptyManager
       = Inr (emptyManager\<lparr>contactsDetectionMethod := Sensors\<rparr>)" by simp
  have f: "findContactsWith id id id (emptyManager\<lparr>contactsDetectionMethod := Sensors\<rparr>)
       = Inr (emptyManager\<lparr>contactsDetectionMethod := Sensors\<rparr>)"
    by (simp add: findContactsWith_def)
  show ?thesis using a b u [OF a(1)] u [OF a(2)] i f by simp
qed

subsection \<open>The position of the floating base\<close>

lemma updateContacts_zero_forces:
  assumes "wellFormed s" and "maintainedContacts s \<noteq> []"
    and "sum_list (map (force ext s) (maintainedContacts s)) = 0"
  shows "updateContacts ext s = Inl NonFiniteDouble"
proof -
  from assms(1) have f: "lookupsOK (contactsManager s) (contactsFound (contactsManager s))"
    by (simp add: wellFormed_def)
  from selectForOrientationOdometry_total [OF f] obtain s0 where
    sel: "selectForOrientationOdometry s = Inr s0" by blast
  from selectForOrientationOdometry_frame [OF sel, of "detectionFromThreshold s"]
  have reg0: "sameRegistry (samePositionData (detectionFromThreshold s))
      (contactsManager s) (contactsManager s0)"
    and set0: "sameSetting s s0" by blast+
  from reg0 have found: "contactsFound (contactsManager s0) = contactsFound (contactsManager s)"
    by (simp add: sameRegistry_def)
  from sameRegistry_lookupsOK [OF sameRegistry_pos_id [OF reg0] f]
  have "lookupsOK (contactsManager s0) (contactsFound (contactsManager s0))" by (simp add: found)
  from fusionLoop_total [OF this] obtain s' a' where
    loop: "fusionLoop ext (contactsFound (contactsManager s0)) (s0, initialSums) = Inr (s', a')"
    by blast
  from fusionLoop_sums [OF loop reg0 set0, unfolded found, folded maintainedContacts_def]
  have "positionUpdatable a'" and "sumForces_position a' = 0"
    using assms(2,3) by (simp_all add: initialSums_def)
  then have "updateFbPose ext s' a' = Inl NonFiniteDouble"
    by (simp add: updateFbPose_def div3_def)
  with sel loop show ?thesis by (simp add: updateContacts_def fuse_def)
qed

text \<open>
  Claim C1. In a cycle with at least one maintained contact (a found contact with
  \<^verbatim>\<open>wasAlreadySet_\<close>) whose forces do not sum to 0, \<^verbatim>\<open>updateContacts\<close> returns, and the
  translation of \<^verbatim>\<open>fbPose_\<close> is then the force-weighted mean
  \<open>\<Sum>(candidate \<cdot> force) / \<Sum>(force)\<close> over the maintained contacts, the candidate of a
  contact being its reference position plus the difference of the current position of
  the base and the current position of the contact. With two maintained contacts of
  candidates \<open>C1\<close>, \<open>C2\<close> and forces \<open>f1\<close>, \<open>f2\<close> it is \<open>(C1 \<cdot> f1 + C2 \<cdot> f2) / (f1 + f2)\<close>, and
  the midpoint of \<open>C1\<close> and \<open>C2\<close> when the forces are equal. (Where the forces sum to 0
  the quotient of the code is no number and there is no mean:
  \<open>updateContacts_zero_forces\<close>.)
\<close>

theorem fused_position_weighted_mean:
  assumes "wellFormed s" and "maintainedContacts s \<noteq> []"
    and "sum_list (map (force ext s) (maintainedContacts s)) \<noteq> 0"
  shows "\<exists>s'. updateContacts ext s = Inr s'
    \<and> Inr (translation (fbPose s')) =
        weightedMean (map (\<lambda>c. (candidate ext s c, force ext s c)) (maintainedContacts s))
    \<and> (\<forall>c1 c2. maintainedContacts s = [c1, c2] \<longrightarrow>
          Inr (translation (fbPose s')) =
            div3 (scale3 (candidate ext s c1) (force ext s c1)
                  + scale3 (candidate ext s c2) (force ext s c2))
              (force ext s c1 + force ext s c2)
          \<and> (force ext s c1 = force ext s c2 \<longrightarrow>
               Inr (translation (fbPose s')) = div3 (candidate ext s c1 + candidate ext s c2) 2))"
proof -
  from updateContacts_total [OF assms(1)] assms(3) obtain s' where
    s': "updateContacts ext s = Inr s'"
    by blast
  from updateContacts_result [OF s'] obtain s1 where
    fuse: "fuse ext s = Inr s1" and fb: "fbPose s' = fbPose s1" by blast
  from fuse_result(7) [OF fuse assms(2)] fb
  have mean: "Inr (translation (fbPose s')) =
        weightedMean (map (\<lambda>c. (candidate ext s c, force ext s c)) (maintainedContacts s))"
    by simp
  have two: "Inr (translation (fbPose s')) =
            div3 (scale3 (candidate ext s c1) (force ext s c1)
                  + scale3 (candidate ext s c2) (force ext s c2))
              (force ext s c1 + force ext s c2)"
    if "maintainedContacts s = [c1, c2]" for c1 c2
    using mean that by (simp add: weightedMean_def)
  have mid: "div3 (scale3 a f + scale3 b f) (f + f) = div3 (a + b) 2" if "f \<noteq> 0"
    for a b :: vec3 and f :: real
  proof -
    have "(x * f + y * f) / (f + f) = (x + y) / 2" for x y :: real
    proof -
      have "(x * f + y * f) / (f + f) = ((x + y) * f) / (2 * f)" by (simp add: algebra_simps)
      also have "\<dots> = (x + y) / 2" using that by simp
      finally show ?thesis .
    qed
    with that show ?thesis
      by (cases a; cases b) (simp add: div3_def scale3_def)
  qed
  have half: "Inr (translation (fbPose s')) = div3 (candidate ext s c1 + candidate ext s c2) 2"
    if m: "maintainedContacts s = [c1, c2]" and e: "force ext s c1 = force ext s c2"
    for c1 c2
  proof -
    from assms(3) m e have "force ext s c1 \<noteq> 0" by simp
    from two [OF m] mid [OF this] e show ?thesis by simp
  qed
  from s' mean two half show ?thesis by blast
qed

theorem fused_position_weighted_mean_witness:
  "wellFormed twoFeet \<and> maintainedContacts twoFeet \<noteq> []
   \<and> sum_list (map (force sceneExternal twoFeet) (maintainedContacts twoFeet)) = 150
   \<and> (\<exists>s'. updateContacts sceneExternal twoFeet = Inr s' \<and> translation (fbPose s') = (2, 0, 1))"
proof -
  have lk: "contact_idx (contactsManager twoFeet) 0
      = Inr (sceneContact 0 ''LeftFootForceSensor'' True 100 (1, 1, 0))"
    "contact_idx (contactsManager twoFeet) 1
      = Inr (sceneContact 1 ''RightFootForceSensor'' True 50 (4, - 1, 0))"
    by (simp_all add: twoFeet_def sceneManager_def contact_idx_def getNameFromIdx_def
        contact_name_def sceneContact_def ContactT_def)
  have wf: "wellFormed twoFeet"
    by (simp add: wellFormed_def lookupsOK_def twoFeet_def sceneManager_def getNameFromIdx_def
        sceneContact_def ContactT_def)
  have fd: "contactsFound (contactsManager twoFeet) = [0, 1]"
    by (simp add: twoFeet_def sceneManager_def)
  have ms: "maintainedContacts twoFeet =
      [sceneContact 0 ''LeftFootForceSensor'' True 100 (1, 1, 0),
       sceneContact 1 ''RightFootForceSensor'' True 50 (4, - 1, 0)]"
    by (simp add: maintainedContacts_def contactsOf_def fd lk) (simp add: sceneContact_def)
  have ne: "maintainedContacts twoFeet \<noteq> []" by (simp add: ms)
  have c1: "candidate sceneExternal twoFeet
      (sceneContact 0 ''LeftFootForceSensor'' True 100 (1, 1, 0)) = (1, 0, 1)"
    and c2: "candidate sceneExternal twoFeet
      (sceneContact 1 ''RightFootForceSensor'' True 50 (4, - 1, 0)) = (4, 0, 1)"
    and f1: "force sceneExternal twoFeet
      (sceneContact 0 ''LeftFootForceSensor'' True 100 (1, 1, 0)) = 100"
    and f2: "force sceneExternal twoFeet
      (sceneContact 1 ''RightFootForceSensor'' True 50 (4, - 1, 0)) = 50"
    by (simp_all add: candidate_def force_def getContactKinematics_def Let_def twoFeet_def
        sceneManager_def sceneExternal_def sceneContact_def ContactT_def sceneBodyOffset_def
        PTransformd_Identity_def identity3_def transpose3_def mat_vec_def dot3_def
        zero_prod_def)
  have sm: "sum_list (map (force sceneExternal twoFeet) (maintainedContacts twoFeet)) = 150"
    by (simp add: ms f1 f2)
  then have nz: "sum_list (map (force sceneExternal twoFeet) (maintainedContacts twoFeet)) \<noteq> 0"
    by simp
  from fused_position_weighted_mean [OF wf ne nz]
  obtain s' where "updateContacts sceneExternal twoFeet = Inr s'"
    and "Inr (translation (fbPose s')) =
        weightedMean (map (\<lambda>c. (candidate sceneExternal twoFeet c, force sceneExternal twoFeet c))
          (maintainedContacts twoFeet))"
    by blast
  then have "updateContacts sceneExternal twoFeet = Inr s' \<and> translation (fbPose s') = (2, 0, 1)"
    by (simp add: ms c1 c2 f1 f2 weightedMean_def scale3_def div3_def)
  with wf ne sm show ?thesis by blast
qed

subsection \<open>The estimate is held without maintained contact\<close>

lemma updateFbKinematics_pose: "pose (updateFbKinematics ext s) = posW (odometryRobot s)"
  by (simp add: updateFbKinematics_def Let_def)

lemma run_pose:
  assumes "run ext s = Inr (s', out)"
  shows "pose out = fbPose s'"
proof -
  from assms obtain m s0 where
    "updateContacts ext (s0\<lparr>contactsManager := m\<rparr>) = Inr s'"
    and out: "out = updateFbKinematics ext s'"
    by (auto simp: run_def Let_def bind_err_Inr_iff)
  from updateContacts_result [OF this(1)] out show ?thesis
    by (auto simp: updateFbKinematics_pose)
qed

text \<open>
  Claim C3. When the detection leaves no maintained contact (no found contact has
  \<^verbatim>\<open>wasAlreadySet_\<close>; the found set may be empty), the cycle returns without an error,
  \<^verbatim>\<open>fbPose_\<close> is what it was when the cycle began, and the pose given to the caller is
  that same pose, which is also the pose the previous cycle gave.
\<close>

theorem held_estimate:
  assumes det: "findContacts ext (contactsManager s) = Inr m"
    and wf: "lookupsOK m (contactsFound m)" "lookupsOK m (removedContacts m)"
    and none: "\<forall>c \<in> set (contactsOf m (contactsFound m)). \<not> wasAlreadySet c"
  shows "\<exists>s' out. run ext s = Inr (s', out) \<and> fbPose s' = fbPose s \<and> pose out = fbPose s
    \<and> (\<forall>ext0 s0 out0. run ext0 s0 = Inr (s, out0) \<longrightarrow> pose out = pose out0)"
proof -
  let ?s0 = "s\<lparr>odometryRobot :=
      forwardKinematics ext ((odometryRobot s)\<lparr>posW := realRobot_posW ext\<rparr>),
      contactsManager := m\<rparr>"
  have "wellFormed ?s0" using wf by (simp add: wellFormed_def)
  moreover from none have nm: "maintainedContacts ?s0 = []"
    by (simp add: maintainedContacts_def filter_empty_conv)
  ultimately obtain s' where s': "updateContacts ext ?s0 = Inr s'"
    using updateContacts_total [of ?s0 ext] by blast
  from updateContacts_result [OF s'] obtain s1 where
    fuse: "fuse ext ?s0 = Inr s1" and fb: "fbPose s' = fbPose s1" by blast
  from fuse_result(6) [OF fuse nm] fb have held: "fbPose s' = fbPose s" by simp
  from det s' have r: "run ext s = Inr (s', updateFbKinematics ext s')"
    by (simp add: run_def Let_def)
  from run_pose [OF r] held have p: "pose (updateFbKinematics ext s') = fbPose s" by simp
  have "pose (updateFbKinematics ext s') = pose out0" if "run ext0 s0 = Inr (s, out0)"
    for ext0 s0 out0
    using run_pose [OF that] p by simp
  with r held p show ?thesis by blast
qed

theorem held_estimate_witness:
  "findContacts sceneExternal (contactsManager twoNewFeet) = Inr (contactsManager twoNewFeet)
   \<and> contactsFound (contactsManager twoNewFeet) = [0, 1]
   \<and> lookupsOK (contactsManager twoNewFeet) [0, 1]
   \<and> contactsOf (contactsManager twoNewFeet) [0, 1]
       = [sceneContact 0 ''LeftFootForceSensor'' False 100 (0, 0, 0),
          sceneContact 1 ''RightFootForceSensor'' False 50 (0, 0, 0)]
   \<and> (\<exists>s' out. run sceneExternal twoNewFeet = Inr (s', out)
         \<and> fbPose s' = PTransformd_Identity \<and> pose out = PTransformd_Identity)"
proof -
  let ?m = "contactsManager twoNewFeet"
  have det: "findContacts sceneExternal ?m = Inr ?m"
    by (simp add: sceneExternal_def)
  have fd: "contactsFound ?m = [0, 1]" "removedContacts ?m = []"
    by (simp_all add: twoNewFeet_def sceneManager_def)
  have ci: "contact_idx ?m 0 = Inr (sceneContact 0 ''LeftFootForceSensor'' False 100 (0, 0, 0))"
    "contact_idx ?m 1 = Inr (sceneContact 1 ''RightFootForceSensor'' False 50 (0, 0, 0))"
    by (simp_all add: twoNewFeet_def sceneManager_def contact_idx_def getNameFromIdx_def
        contact_name_def sceneContact_def ContactT_def)
  have co: "contactsOf ?m [0, 1]
       = [sceneContact 0 ''LeftFootForceSensor'' False 100 (0, 0, 0),
          sceneContact 1 ''RightFootForceSensor'' False 50 (0, 0, 0)]"
    by (simp add: contactsOf_def ci)
  have lk: "lookupsOK ?m [0, 1]"
    by (simp add: lookupsOK_def twoNewFeet_def sceneManager_def getNameFromIdx_def
        sceneContact_def ContactT_def)
  have wf: "lookupsOK ?m (contactsFound ?m)" "lookupsOK ?m (removedContacts ?m)"
    using lk by (simp_all add: fd lookupsOK_def)
  have none: "\<forall>c \<in> set (contactsOf ?m (contactsFound ?m)). \<not> wasAlreadySet c"
    by (simp add: fd co) (simp add: sceneContact_def)
  have fb: "fbPose twoNewFeet = PTransformd_Identity"
    by (simp add: twoNewFeet_def sceneManager_def)
  from held_estimate [OF det wf none] fb
  have "\<exists>s' out. run sceneExternal twoNewFeet = Inr (s', out)
         \<and> fbPose s' = PTransformd_Identity \<and> pose out = PTransformd_Identity"
    by auto
  with det fd(1) lk co show ?thesis by blast
qed


subsection \<open>The reference of a new contact\<close>

text \<open>
  Claim C7. In flat odometry (\<^verbatim>\<open>odometry6d_\<close> false), \<^verbatim>\<open>setNewContact\<close> for a contact of
  the manager returns, and the reference position it leaves in that contact has the
  vertical coordinate 0, whatever the robot model and the sensors give, both when the
  detection is from thresholds and when it is from surfaces.
\<close>

theorem setNewContact_flat:
  assumes "\<not> odometry6d s" and "listContacts (contactsManager s) forceSensor = Some c0"
  shows "\<exists>s' c. setNewContact ext forceSensor s = Inr s'
    \<and> listContacts (contactsManager s') forceSensor = Some c
    \<and> coeff2 (position (worldRefKine c)) = 0
    \<and> (\<forall>thr. \<exists>t c'. setNewContact ext forceSensor (s\<lparr>detectionFromThreshold := thr\<rparr>) = Inr t
          \<and> listContacts (contactsManager t) forceSensor = Some c'
          \<and> coeff2 (position (worldRefKine c')) = 0)"
proof -
  have z: "coeff2 (set_coeff2 v 0) = 0" for v
    by (cases v) (simp add: coeff2_def set_coeff2_def)
  have one: "\<exists>t c'. setNewContact ext forceSensor u = Inr t
          \<and> listContacts (contactsManager t) forceSensor = Some c'
          \<and> coeff2 (position (worldRefKine c')) = 0"
    if "\<not> odometry6d u" "listContacts (contactsManager u) forceSensor = Some c0" for u
    using that by (simp add: setNewContact_def contact_name_def Let_def modifyContact_def z)
  from one [of s] one [of "s\<lparr>detectionFromThreshold := thr\<rparr>" for thr] assms
  show ?thesis by simp
qed

theorem setNewContact_flat_witness:
  "\<not> odometry6d twoNewFeet
   \<and> listContacts (contactsManager twoNewFeet) ''LeftFootForceSensor''
       = Some (sceneContact 0 ''LeftFootForceSensor'' False 100 (0, 0, 0))
   \<and> translation (bodyPosW (odometryRobot twoNewFeet) ''LeftFootForceSensor'') = (0, 1, - 1)
   \<and> (\<exists>s' c. setNewContact sceneExternal ''LeftFootForceSensor'' twoNewFeet = Inr s'
         \<and> listContacts (contactsManager s') ''LeftFootForceSensor'' = Some c
         \<and> position (worldRefKine c) = (0, 1, 0))
   \<and> (\<exists>s' c. setNewContact sceneExternal ''LeftFootForceSensor''
                 (twoNewFeet\<lparr>detectionFromThreshold := False\<rparr>) = Inr s'
         \<and> listContacts (contactsManager s') ''LeftFootForceSensor'' = Some c
         \<and> position (worldRefKine c) = (0, 1, 0))"
proof -
  have a: "\<not> odometry6d twoNewFeet" by (simp add: twoNewFeet_def sceneManager_def)
  have b: "listContacts (contactsManager twoNewFeet) ''LeftFootForceSensor''
       = Some (sceneContact 0 ''LeftFootForceSensor'' False 100 (0, 0, 0))"
    by (simp add: twoNewFeet_def sceneManager_def sceneContact_def ContactT_def)
  have h: "translation (bodyPosW (odometryRobot twoNewFeet) ''LeftFootForceSensor'') = (0, 1, - 1)"
    by (simp add: twoNewFeet_def sceneManager_def sceneExternal_def sceneBodyOffset_def
        PTransformd_Identity_def zero_prod_def)
  have c: "setNewContact sceneExternal ''LeftFootForceSensor''
      (twoNewFeet\<lparr>detectionFromThreshold := thr\<rparr>) = Inr t \<Longrightarrow>
    listContacts (contactsManager t) ''LeftFootForceSensor'' = Some c \<Longrightarrow>
    position (worldRefKine c) = (0, 1, 0)" for thr t c
    by (cases thr)
      (auto simp: setNewContact_def contact_name_def Let_def modifyContact_def twoNewFeet_def
        sceneManager_def sceneExternal_def sceneContact_def ContactT_def sceneBodyOffset_def
        PTransformd_Identity_def identity3_def transpose3_def mat_vec_def dot3_def
        set_coeff2_def zero_prod_def)
  from setNewContact_flat [OF a b, of sceneExternal]
  have "\<forall>thr. \<exists>t c'. setNewContact sceneExternal ''LeftFootForceSensor''
      (twoNewFeet\<lparr>detectionFromThreshold := thr\<rparr>) = Inr t
          \<and> listContacts (contactsManager t) ''LeftFootForceSensor'' = Some c'" by blast
  then have "\<exists>t c'. setNewContact sceneExternal ''LeftFootForceSensor''
      (twoNewFeet\<lparr>detectionFromThreshold := thr\<rparr>) = Inr t
          \<and> listContacts (contactsManager t) ''LeftFootForceSensor'' = Some c'
          \<and> position (worldRefKine c') = (0, 1, 0)" for thr
    using c by blast
  from this [of True] this [of False] a b h show ?thesis
    by (simp add: twoNewFeet_def sceneManager_def)
qed


subsection \<open>New contacts see the fused pose\<close>

lemma newContactsLoop_append:
  "newContactsLoop ext (xs @ ys) s = bind_err (newContactsLoop ext xs s) (newContactsLoop ext ys)"
proof (induction xs arbitrary: s)
  case Nil
  show ?case by simp
next
  case (Cons x xs)
  show ?case by (cases "newContactStep ext x s") (simp_all add: Cons.IH)
qed

lemma setNewContact_anchor:
  assumes "odometryRobot u = \<lparr>posW = base, bodyPosW = forwardKinematics_bodyPosW ext base\<rparr>"
    and "listContacts (contactsManager u) k = Some d"
  shows "\<exists>t. setNewContact ext k u = Inr t
    \<and> listContacts (contactsManager t) k =
        Some (d\<lparr>worldRefKine :=
          anchorAt ext (detectionFromThreshold u) (odometry6d u) base k (surface d)\<rparr>)
    \<and> logger t = logger u"
  using assms
  by (simp add: setNewContact_def contact_name_def anchorAt_def Let_def modifyContact_def)

lemma newContactStep_anchor:
  assumes rob: "odometryRobot s = \<lparr>posW = base, bodyPosW = forwardKinematics_bodyPosW ext base\<rparr>"
    and k: "getNameFromIdx (contactsManager s) i = Inr k"
    and c: "listContacts (contactsManager s) k = Some c"
    and n: "getName c = k" and new: "\<not> wasAlreadySet c"
  shows "\<exists>s' c'. newContactStep ext i s = Inr s'
    \<and> listContacts (contactsManager s') k = Some c'
    \<and> worldRefKine c' = anchorAt ext (detectionFromThreshold s) (odometry6d s) base k (surface c)
    \<and> isSet c'"
proof -
  let ?s1 = "s\<lparr>contactsManager :=
      modifyContact (contactsManager s) k (\<lambda>c. c\<lparr>isSet := True\<rparr>)\<rparr>"
  have c1: "listContacts (contactsManager ?s1) k = Some (c\<lparr>isSet := True\<rparr>)"
    using c by (simp add: modifyContact_def)
  have r1: "odometryRobot ?s1 = \<lparr>posW = base, bodyPosW = forwardKinematics_bodyPosW ext base\<rparr>"
    using rob by simp
  from setNewContact_anchor [OF r1 c1] obtain s2 where s2: "setNewContact ext k ?s1 = Inr s2"
    and c': "listContacts (contactsManager s2) k =
        Some (c\<lparr>isSet := True, worldRefKine :=
          anchorAt ext (detectionFromThreshold s) (odometry6d s) base k (surface c)\<rparr>)"
    by auto
  have "newContactStep ext i s = Inr (addContactLogEntries k s2)"
    using k c n new s2 by (simp add: newContactStep_def contact_name_def Let_def)
  moreover have "listContacts (contactsManager (addContactLogEntries k s2)) k =
        Some (c\<lparr>isSet := True, worldRefKine :=
          anchorAt ext (detectionFromThreshold s) (odometry6d s) base k (surface c)\<rparr>)"
    using c' by (simp add: addContactLogEntries_def)
  ultimately show ?thesis by simp
qed

text \<open>
  Claim C10. In \<^verbatim>\<open>updateContacts\<close>, the loop over the new contacts runs on the state in
  which the fused \<^verbatim>\<open>fbPose_\<close> has been written into the odometry robot and forward
  kinematics recomputed. At the iteration of any found index \<open>i\<close>, after the
  iterations of the indices before it, the pose of the odometry robot is the fused
  \<^verbatim>\<open>fbPose_\<close> of this cycle and its body poses are those forward kinematics gives for
  that pose. When the contact of index \<open>i\<close> is new, the iteration returns and the
  reference kinematics \<^verbatim>\<open>worldRefKine_\<close> it leaves in the contact is the world anchor of
  the contact for a robot whose floating base is at the fused pose: the reference is
  computed from the fused estimate, not from the pose the robot had before the
  fusion. \<^verbatim>\<open>updateContacts\<close> is the continuation of the loop from that state.
\<close>

theorem newContacts_see_fused_pose:
  assumes "fuse ext s = Inr s1"
    and "contactsFound (contactsManager s1) = pre @ i # post"
    and "newContactsLoop ext pre (writeBack ext s1) = Inr s2"
  shows "posW (odometryRobot s2) = fbPose s1 \<and> fbPose s2 = fbPose s1
    \<and> bodyPosW (odometryRobot s2) = forwardKinematics_bodyPosW ext (fbPose s1)
    \<and> (\<forall>k c. getNameFromIdx (contactsManager s2) i = Inr k
          \<and> listContacts (contactsManager s2) k = Some c \<and> getName c = k
          \<and> \<not> wasAlreadySet c \<longrightarrow>
          (\<exists>s3 c'. newContactStep ext i s2 = Inr s3
             \<and> listContacts (contactsManager s3) k = Some c'
             \<and> worldRefKine c' =
                 anchorAt ext (detectionFromThreshold s) (odometry6d s) (fbPose s1) k (surface c)))
    \<and> updateContacts ext s =
        bind_err (newContactStep ext i s2) (\<lambda>s3.
        bind_err (newContactsLoop ext post s3) (\<lambda>s4.
          removedContactsLoop (removedContacts (contactsManager s4)) s4))"
proof -
  from newContactsLoop_frame [OF assms(3)] have set: "sameSetting (writeBack ext s1) s2" by blast
  then have p: "posW (odometryRobot s2) = fbPose s1" "fbPose s2 = fbPose s1"
    "bodyPosW (odometryRobot s2) = forwardKinematics_bodyPosW ext (fbPose s1)"
    by (simp_all add: sameSetting_def writeBack_frame)
  then have rob: "odometryRobot s2 =
      \<lparr>posW = fbPose s1, bodyPosW = forwardKinematics_bodyPosW ext (fbPose s1)\<rparr>"
    by simp
  from set fuse_result(3,4) [OF assms(1)]
  have cfg: "detectionFromThreshold s2 = detectionFromThreshold s" "odometry6d s2 = odometry6d s"
    by (simp_all add: sameSetting_def writeBack_frame)
  have anchor: "\<exists>s3 c'. newContactStep ext i s2 = Inr s3
             \<and> listContacts (contactsManager s3) k = Some c'
             \<and> worldRefKine c' =
                 anchorAt ext (detectionFromThreshold s) (odometry6d s) (fbPose s1) k (surface c)"
    if "getNameFromIdx (contactsManager s2) i = Inr k"
      and "listContacts (contactsManager s2) k = Some c" and "getName c = k"
      and "\<not> wasAlreadySet c" for k c
    using newContactStep_anchor [OF rob that] unfolding cfg by blast
  have "newContactsLoop ext (contactsFound (contactsManager s1)) (writeBack ext s1)
      = bind_err (newContactStep ext i s2) (newContactsLoop ext post)"
    by (simp add: assms(2,3) newContactsLoop_append)
  then have "updateContacts ext s =
        bind_err (newContactStep ext i s2) (\<lambda>s3.
        bind_err (newContactsLoop ext post s3) (\<lambda>s4.
          removedContactsLoop (removedContacts (contactsManager s4)) s4))"
    by (cases "newContactStep ext i s2") (simp_all add: updateContacts_def assms(1))
  with p anchor show ?thesis by blast
qed

theorem newContacts_see_fused_pose_witness:
  "fbPose oneNewFoot = PTransformd_Identity
   \<and> position (anchorAt sceneExternal True False (fbPose oneNewFoot)
        ''RightFootForceSensor'' ''RightFootForceSensor'') = (0, - 1, 0)
   \<and> (\<exists>s1 s2 s3 c. fuse sceneExternal oneNewFoot = Inr s1
     \<and> translation (fbPose s1) = (1, 0, 1)
     \<and> contactsFound (contactsManager s1) = [0] @ 1 # []
     \<and> newContactsLoop sceneExternal [0] (writeBack sceneExternal s1) = Inr s2
     \<and> posW (odometryRobot s2) = fbPose s1 \<and> fbPose s2 = fbPose s1
     \<and> bodyPosW (odometryRobot s2) = forwardKinematics_bodyPosW sceneExternal (fbPose s1)
     \<and> newContactStep sceneExternal 1 s2 = Inr s3
     \<and> listContacts (contactsManager s3) ''RightFootForceSensor'' = Some c
     \<and> position (worldRefKine c) = (1, - 1, 0)
     \<and> updateContacts sceneExternal oneNewFoot =
         bind_err (newContactStep sceneExternal 1 s2) (\<lambda>s3.
         bind_err (newContactsLoop sceneExternal [] s3) (\<lambda>s4.
           removedContactsLoop (removedContacts (contactsManager s4)) s4)))"
proof -
  let ?m = "contactsManager oneNewFoot"
  let ?L = "sceneContact 0 ''LeftFootForceSensor'' True 100 (1, 1, 0)"
  let ?R = "sceneContact 1 ''RightFootForceSensor'' False 50 (0, 0, 0)"
  have fb0: "fbPose oneNewFoot = PTransformd_Identity"
    by (simp add: oneNewFoot_def sceneManager_def)
  have mv: "mat_vec M (0, 0, 0) = (0, 0, 0)" for M
    by (cases M rule: prod_cases3) (simp add: mat_vec_def dot3_def)
  have pz: "v + (0, 0, 0) = v" for v :: vec3
    by (cases v rule: prod_cases3) simp
  have an: "position (anchorAt sceneExternal True False base
        ''RightFootForceSensor'' ''RightFootForceSensor'')
      = set_coeff2 (translation base + (0, - 1, - 1)) 0" for base
    by (simp add: anchorAt_def Let_def sceneExternal_def sceneBodyOffset_def
        PTransformd_Identity_def zero_prod_def mv pz)
  have an0: "position (anchorAt sceneExternal True False (fbPose oneNewFoot)
        ''RightFootForceSensor'' ''RightFootForceSensor'') = (0, - 1, 0)"
    by (simp add: an fb0 PTransformd_Identity_def zero_prod_def set_coeff2_def)
  have fd: "contactsFound ?m = [0, 1]"
    by (simp add: oneNewFoot_def sceneManager_def)
  have lk: "lookupsOK ?m [0, 1]"
    by (simp add: lookupsOK_def oneNewFoot_def sceneManager_def getNameFromIdx_def
        sceneContact_def ContactT_def)
  then have lkf: "lookupsOK ?m (contactsFound ?m)" by (simp add: fd)
  have ci: "contact_idx ?m 0 = Inr ?L" "contact_idx ?m 1 = Inr ?R"
    by (simp_all add: oneNewFoot_def sceneManager_def contact_idx_def getNameFromIdx_def
        contact_name_def sceneContact_def ContactT_def)
  have ms: "maintainedContacts oneNewFoot = [?L]"
    by (simp add: maintainedContacts_def contactsOf_def fd ci) (simp add: sceneContact_def)
  have cf: "candidate sceneExternal oneNewFoot ?L = (1, 0, 1)"
    "force sceneExternal oneNewFoot ?L = 100"
    by (simp_all add: candidate_def force_def getContactKinematics_def Let_def oneNewFoot_def
        sceneManager_def sceneExternal_def sceneContact_def ContactT_def sceneBodyOffset_def
        PTransformd_Identity_def identity3_def transpose3_def mat_vec_def dot3_def
        zero_prod_def)
  have nz: "maintainedContacts oneNewFoot = [] \<or>
      sum_list (map (force sceneExternal oneNewFoot) (maintainedContacts oneNewFoot)) \<noteq> 0"
    by (simp add: ms cf)
  from fuse_total [OF lkf nz] obtain s1 where fuse: "fuse sceneExternal oneNewFoot = Inr s1"
    by blast
  have "maintainedContacts oneNewFoot \<noteq> []" by (simp add: ms)
  from fuse_result(7) [OF fuse this]
  have tr: "translation (fbPose s1) = (1, 0, 1)"
    by (simp add: ms cf weightedMean_def scale3_def div3_def)
  from fuse_result(1) [OF fuse]
  have reg: "sameRegistry sameIdentity ?m (contactsManager s1)" by (rule sameRegistry_pos_id)
  then have found: "contactsFound (contactsManager s1) = [0] @ 1 # []"
    by (simp add: sameRegistry_def fd)
  from lk have "lookupsOK ?m [0]" by (simp add: lookupsOK_def)
  from sameRegistry_lookupsOK [OF reg this]
  have "lookupsOK (contactsManager (writeBack sceneExternal s1)) [0]"
    by (simp add: writeBack_frame)
  from newContactsLoop_total [OF this] obtain s2 where
    loop: "newContactsLoop sceneExternal [0] (writeBack sceneExternal s1) = Inr s2" by blast
  from newContactsLoop_frame [OF loop]
  have "sameRegistry sameIdentity (contactsManager s1) (contactsManager s2)"
    by (simp add: writeBack_frame)
  with reg have reg2: "sameRegistry sameIdentity ?m (contactsManager s2)"
    by (rule sameRegistry_id_trans)
  then have nm: "getNameFromIdx (contactsManager s2) 1 = Inr ''RightFootForceSensor''"
    by (simp add: sameRegistry_def getNameFromIdx_def oneNewFoot_def sceneManager_def
        sceneContact_def ContactT_def)
  have "listContacts ?m ''RightFootForceSensor'' = Some ?R"
    by (simp add: oneNewFoot_def sceneManager_def sceneContact_def ContactT_def)
  from sameRegistry_Some' [OF reg2 this]
  obtain c2 where c2: "listContacts (contactsManager s2) ''RightFootForceSensor'' = Some c2"
    and id2: "sameIdentity ?R c2"
    by (elim exE conjE)
  from id2 have c2n: "getName c2 = ''RightFootForceSensor''" "\<not> wasAlreadySet c2"
    "surface c2 = ''RightFootForceSensor''"
    by (simp_all add: sameIdentity_def sceneContact_def ContactT_def)
  have cfg: "detectionFromThreshold oneNewFoot" "\<not> odometry6d oneNewFoot"
    by (simp_all add: oneNewFoot_def sceneManager_def)
  note main = newContacts_see_fused_pose [OF fuse found loop]
  from main nm c2 c2n(1,2) obtain s3 c' where
    s3: "newContactStep sceneExternal 1 s2 = Inr s3"
    and c': "listContacts (contactsManager s3) ''RightFootForceSensor'' = Some c'"
    and w: "worldRefKine c' = anchorAt sceneExternal (detectionFromThreshold oneNewFoot)
        (odometry6d oneNewFoot) (fbPose s1) ''RightFootForceSensor'' (surface c2)"
    by blast
  from w have pos: "position (worldRefKine c') = (1, - 1, 0)"
    by (simp add: cfg c2n an tr set_coeff2_def)
  from main fuse tr found loop s3 c' pos
  have "\<exists>s1 s2 s3 c. fuse sceneExternal oneNewFoot = Inr s1
     \<and> translation (fbPose s1) = (1, 0, 1)
     \<and> contactsFound (contactsManager s1) = [0] @ 1 # []
     \<and> newContactsLoop sceneExternal [0] (writeBack sceneExternal s1) = Inr s2
     \<and> posW (odometryRobot s2) = fbPose s1 \<and> fbPose s2 = fbPose s1
     \<and> bodyPosW (odometryRobot s2) = forwardKinematics_bodyPosW sceneExternal (fbPose s1)
     \<and> newContactStep sceneExternal 1 s2 = Inr s3
     \<and> listContacts (contactsManager s3) ''RightFootForceSensor'' = Some c
     \<and> position (worldRefKine c) = (1, - 1, 0)
     \<and> updateContacts sceneExternal oneNewFoot =
         bind_err (newContactStep sceneExternal 1 s2) (\<lambda>s3.
         bind_err (newContactsLoop sceneExternal [] s3) (\<lambda>s4.
           removedContactsLoop (removedContacts (contactsManager s4)) s4))"
    by (intro exI [of _ s1] exI [of _ s2] exI [of _ s3] exI [of _ c']) simp
  with fb0 an0 show ?thesis by simp
qed

subsection \<open>The orientation candidates\<close>

text \<open>
  Claim C4 fails where eligible contacts have the same force norm: the set takes a
  contact whose norm equals that of an element for that element, and does not insert
  it. With three maintained contacts of force norms 5, 5 and 3,
  \<^verbatim>\<open>selectForOrientationOdometry\<close> leaves the contacts of norms 3 and 5 in
  \<^verbatim>\<open>oriOdometryContacts_\<close>, not the two of norm 5; with norms 5, 5 and 5 it leaves one
  contact. The contacts that were not inserted are in no set and keep
  \<^verbatim>\<open>useForOrientation_\<close>.
\<close>

theorem select_with_equal_forces:
  "(\<exists>s'. selectForOrientationOdometry (tiedContacts 3) = Inr s'
      \<and> oriOdometryContacts (contactsManager s') = [''LeftKneeForceSensor'', ''LeftFootForceSensor'']
      \<and> map (\<lambda>k. map_option forceNorm (listContacts (contactsManager s') k))
           [''LeftFootForceSensor'', ''RightFootForceSensor'', ''LeftKneeForceSensor'']
         = [Some 5, Some 5, Some 3]
      \<and> map_option useForOrientation (listContacts (contactsManager s') ''RightFootForceSensor'')
          = Some True)
   \<and> (\<exists>s'. selectForOrientationOdometry (tiedContacts 5) = Inr s'
      \<and> oriOdometryContacts (contactsManager s') = [''LeftFootForceSensor'']
      \<and> map (\<lambda>k. map_option useForOrientation (listContacts (contactsManager s') k))
           [''LeftFootForceSensor'', ''RightFootForceSensor'', ''LeftKneeForceSensor'']
         = [Some True, Some True, Some True])"
  by (simp add: tiedContacts_def sceneManager_def sceneContact_def ContactT_def
      selectForOrientationOdometry_def selectForOrientationOdometry_cm_def
      getNameFromIdx_def contact_name_def modifyContact_def sortByForce_ref_def sortByForce_def
      Let_def evictLoop.simps)

text \<open>
  Claim C5 fails for a contact found for the first time: \<^verbatim>\<open>selectForOrientationOdometry\<close>
  tests the name only. With the left foot maintained and the right foot new, both are
  in \<^verbatim>\<open>oriOdometryContacts_\<close>, the new one first.
\<close>

theorem select_takes_new_contact:
  "\<exists>s'. selectForOrientationOdometry oneNewFoot = Inr s'
     \<and> oriOdometryContacts (contactsManager s') = [''RightFootForceSensor'', ''LeftFootForceSensor'']
     \<and> map_option wasAlreadySet (listContacts (contactsManager s') ''RightFootForceSensor'')
         = Some False
     \<and> map_option useForOrientation (listContacts (contactsManager s') ''RightFootForceSensor'')
         = Some True"
  by (simp add: oneNewFoot_def sceneManager_def sceneContact_def ContactT_def
      selectForOrientationOdometry_def selectForOrientationOdometry_cm_def
      getNameFromIdx_def contact_name_def modifyContact_def sortByForce_ref_def sortByForce_def
      Let_def evictLoop.simps)

text \<open>
  Claim C2 fails in the same cycle, for any robot model and libraries: the two
  candidates are the new right foot (force norm 50, first in the set) and the
  maintained left foot (force norm 100), the orientation of \<^verbatim>\<open>fbPose_\<close> is the merge of
  the tilt with their blend \<^verbatim>\<open>meanOri\<close>, and the blend is taken with
  \<^verbatim>\<open>sumForces_orientation\<close> = 100, the force of the maintained contact alone: \<open>u\<close> is
  \<open>50 / 100\<close>, not \<open>50 / (50 + 100)\<close>. The orientation the new contact enters the
  blend with is the one it held before the cycle: the loop over the found contacts
  computes none for it.
\<close>

theorem blend_with_new_contact:
  "(case fuse ext oneNewFoot of
      Inl e \<Rightarrow> False
    | Inr s1 \<Rightarrow>
        (case map (listContacts (contactsManager s1)) (oriOdometryContacts (contactsManager s1)) of
           [Some contact1, Some contact2] \<Rightarrow>
             rotation (fbPose s1) =
               transpose3 (mergeRoll1Pitch1WithYaw2AxisAgnostic ext
                 (transpose3 (rotation (realRobot_posW ext)))
                 (meanOri ext contact1 contact2 100))
             \<and> getName contact1 = ''RightFootForceSensor'' \<and> \<not> wasAlreadySet contact1
             \<and> Some (currentWorldOrientation contact1) =
                 map_option currentWorldOrientation
                   (listContacts (contactsManager oneNewFoot) ''RightFootForceSensor'')
             \<and> getName contact2 = ''LeftFootForceSensor'' \<and> wasAlreadySet contact2
             \<and> forceNorm contact1 = 50 \<and> forceNorm contact2 = 100
             \<and> blendWeight contact1 100 = 1 / 2
             \<and> forceNorm contact1 / (forceNorm contact1 + forceNorm contact2) = 1 / 3
         | _ \<Rightarrow> False))"
  by (simp add: fuse_def oneNewFoot_def sceneManager_def sceneContact_def ContactT_def
      selectForOrientationOdometry_def selectForOrientationOdometry_cm_def
      getNameFromIdx_def contact_name_def modifyContact_def sortByForce_ref_def sortByForce_def
      Let_def evictLoop.simps fusionStep_def getContactKinematics_def initialSums_def
      updateFbPose_def div3_def deref_def blendWeight_def case_prod_beta)

subsection \<open>The classifier\<close>

text \<open>
  Claim C6, on the classifier as the spec describes it. For a previous active set \<open>P\<close>
  and a new active set \<open>N\<close>, the three parts are \<open>N \ P\<close>, \<open>N \<inter> P\<close> and \<open>P \ N\<close>; they are
  pairwise disjoint and cover \<open>P \<union> N\<close>; and the callbacks are invoked for the new ids,
  then the maintained ids, then the removed ids, each id of a part once per
  occurrence and in the order of the part.
\<close>

theorem classifyContacts_partition:
  "set (newContacts P N) = set N - set P
   \<and> set (maintainedIds P N) = set N \<inter> set P
   \<and> set (removedIds P N) = set P - set N
   \<and> set (newContacts P N) \<inter> set (maintainedIds P N) = {}
   \<and> set (newContacts P N) \<inter> set (removedIds P N) = {}
   \<and> set (maintainedIds P N) \<inter> set (removedIds P N) = {}
   \<and> set (newContacts P N) \<union> set (maintainedIds P N) \<union> set (removedIds P N) = set P \<union> set N
   \<and> classifyContacts (recordCall OnNewContact) (recordCall OnMaintainedContact)
        (recordCall OnRemovedContact) P N calls
      = calls @ map OnNewContact (newContacts P N)
          @ map OnMaintainedContact (maintainedIds P N)
          @ map OnRemovedContact (removedIds P N)"
proof -
  have rec: "fold (recordCall ev) xs cs = cs @ map ev xs" for ev xs cs
    by (induction xs arbitrary: cs) (simp_all add: recordCall_def)
  have sets: "set (newContacts P N) = set N - set P"
    "set (maintainedIds P N) = set N \<inter> set P"
    "set (removedIds P N) = set P - set N"
    by (auto simp: newContacts_def maintainedIds_def removedIds_def)
  have "classifyContacts (recordCall OnNewContact) (recordCall OnMaintainedContact)
        (recordCall OnRemovedContact) P N calls
      = calls @ map OnNewContact (newContacts P N)
          @ map OnMaintainedContact (maintainedIds P N)
          @ map OnRemovedContact (removedIds P N)"
    by (simp add: classifyContacts_def rec)
  moreover have "set (newContacts P N) \<inter> set (maintainedIds P N) = {}"
    "set (newContacts P N) \<inter> set (removedIds P N) = {}"
    "set (maintainedIds P N) \<inter> set (removedIds P N) = {}"
    "set (newContacts P N) \<union> set (maintainedIds P N) \<union> set (removedIds P N) = set P \<union> set N"
    unfolding sets by blast+
  ultimately show ?thesis using sets by blast
qed


end
